theory Spec2Isabelle
  imports Main
begin

section \<open>JavaScript values and the host environment\<close>

text \<open>
  JESX (src/src/jesx.js) is a browser framework: it builds DOM elements from descriptors,
  keeps a process-wide template registry, renders a page from the configuration and
  re-renders single elements by identifier. The values it inspects with \<open>typeof\<close>,
  truthiness tests and string conversion are modelled by one datatype. Numbers are the
  integer-valued ones; \<open>JNode\<close> is a reference to a DOM node; \<open>JInstance\<close> is the
  singleton \<open>instance\<close> of the class.
\<close>

datatype js_error =
  TypeError | ReferenceError | SyntaxError | InvalidCharacterError | HierarchyRequestError
  | NotFoundError | UserError

text \<open>
  A DOM node is an object: the same node can be handed around, it sits under at most one
  parent, and appending it somewhere takes it away from where it was. Nodes therefore
  live in a store and are known by their reference; an element holds the references of
  its children.
\<close>

type_synonym ref = nat

datatype node =
  Element (tagName: string) (attributes: "(string \<times> string) list") (childNodes: "ref list")
  | TextNode string

datatype fkind = Constructible | NotConstructible

datatype jsval =
  JUndefined | JNull | JBool bool | JNum int | JStr string | JSymbol string
  | JObj "(string \<times> jsval) list" | JArr "jsval list" | JFun fkind nat | JNode ref
  | JInstance

text \<open>
  Everything the source obtains from the browser or from user code is a field of the
  host: \<open>run body\<close> is \<open>Function(body)()\<close> in the ambient global scope,
  \<open>instantiate c p\<close> is \<open>new c(p).render()\<close> for a constructible function \<open>c\<close>
  (a node it renders is a node of the store, which several calls may share; component
  code leaves the document and the state of the module alone),
  \<open>obj_string\<close> is the string conversion of an object other than an array (its
  \<open>toString\<close>),
  the two name predicates are the checks of \<open>document.createElement\<close> and
  \<open>setAttribute\<close>, \<open>set_style\<close> is the effect of \<open>element.style[p] = v\<close>
  on the attributes of the element, and \<open>location_hash\<close> is \<open>window.location.hash\<close>.
\<close>

record host =
  run :: "string \<Rightarrow> js_error + jsval"
  instantiate :: "nat \<Rightarrow> jsval \<Rightarrow> js_error + jsval"
  obj_string :: "jsval \<Rightarrow> js_error + string"
  valid_element_name :: "string \<Rightarrow> bool"
  valid_attribute_name :: "string \<Rightarrow> bool"
  set_style :: "(string \<times> string) list \<Rightarrow> string \<Rightarrow> jsval \<Rightarrow> js_error + (string \<times> string) list"
  location_hash :: string

fun truthy :: "jsval \<Rightarrow> bool" where
  "truthy JUndefined = False"
| "truthy JNull = False"
| "truthy (JBool b) = b"
| "truthy (JNum n) = (n \<noteq> 0)"
| "truthy (JStr s) = (s \<noteq> [])"
| "truthy _ = True"

fun typeof :: "jsval \<Rightarrow> string" where
  "typeof JUndefined = ''undefined''"
| "typeof (JBool b) = ''boolean''"
| "typeof (JNum n) = ''number''"
| "typeof (JStr s) = ''string''"
| "typeof (JSymbol d) = ''symbol''"
| "typeof (JFun k c) = ''function''"
| "typeof _ = ''object''"

fun nat_digits :: "nat \<Rightarrow> string" where
  "nat_digits n =
     (if n < 10 then [char_of (48 + n)]
      else nat_digits (n div 10) @ [char_of (48 + n mod 10)])"

declare nat_digits.simps [simp del]

definition int_string :: "int \<Rightarrow> string" where
  "int_string i = (if i < 0 then CHR ''-'' # nat_digits (nat (- i)) else nat_digits (nat i))"

text \<open>
  \<open>to_string\<close> is the implicit conversion (ToString), which rejects symbols. An array is
  joined with commas, null and undefined elements giving the empty string.
\<close>

fun to_string :: "host \<Rightarrow> jsval \<Rightarrow> js_error + string"
  and join_comma :: "host \<Rightarrow> jsval list \<Rightarrow> js_error + string" where
  "to_string h JUndefined = Inr ''undefined''"
| "to_string h JNull = Inr ''null''"
| "to_string h (JBool b) = Inr (if b then ''true'' else ''false'')"
| "to_string h (JNum n) = Inr (int_string n)"
| "to_string h (JStr s) = Inr s"
| "to_string h (JSymbol d) = Inl TypeError"
| "to_string h (JArr xs) = join_comma h xs"
| "to_string h (JObj kvs) = obj_string h (JObj kvs)"
| "to_string h (JFun k c) = obj_string h (JFun k c)"
| "to_string h (JNode r) = obj_string h (JNode r)"
| "to_string h JInstance = obj_string h JInstance"
| "join_comma h [] = Inr []"
| "join_comma h (x # xs) =
     (case (if x = JNull \<or> x = JUndefined then Inr [] else to_string h x) of
        Inl e \<Rightarrow> Inl e
      | Inr s \<Rightarrow>
          (if xs = [] then Inr s
           else (case join_comma h xs of Inl e \<Rightarrow> Inl e | Inr t \<Rightarrow> Inr (s @ '','' @ t))))"

text \<open>ASCII lower case, as an HTML document applies it to element and attribute names.\<close>

definition lower_char :: "char \<Rightarrow> char" where
  "lower_char c =
     (let n = (of_char c :: nat) in if 65 \<le> n \<and> n \<le> 90 then char_of (n + 32) else c)"

definition ascii_lower :: "string \<Rightarrow> string" where
  "ascii_lower s = map lower_char s"

text \<open>\<open>String_call\<close> is the explicit call \<open>String(v)\<close>, which describes a symbol.\<close>

fun String_call :: "host \<Rightarrow> jsval \<Rightarrow> js_error + string" where
  "String_call h (JSymbol d) = Inr (''Symbol('' @ d @ '')'')"
| "String_call h v = to_string h v"

section \<open>Inline-expression substitution\<close>

text \<open>
  A match of the regular expression \<open>/J\{([^}]+)\}/\<close> at the head of the string: the
  letters \<open>J{\<close>, the longest non-empty run of characters other than \<open>}\<close>, and a
  closing \<open>}\<close>. The result is the captured expression and the text after the match.
\<close>

definition match_at :: "string \<Rightarrow> (string \<times> string) option" where
  "match_at s =
     (case s of
        a # b # rest \<Rightarrow>
          (if a = CHR ''J'' \<and> b = CHR ''{'' then
             (let expr = takeWhile (\<lambda>c. c \<noteq> CHR ''}'') rest in
              case dropWhile (\<lambda>c. c \<noteq> CHR ''}'') rest of
                [] \<Rightarrow> None
              | _ # after \<Rightarrow> (if expr = [] then None else Some (expr, after)))
           else None)
      | _ \<Rightarrow> None)"

text \<open>
  The replacer callback: \<open>try { return Function('return ' + expr)(); } catch (e) { return
  'undefined'; }\<close>. Its result is then converted to a string by \<open>String.prototype.replace\<close>
  itself, outside the \<open>try\<close>.
\<close>

definition replacer :: "host \<Rightarrow> string \<Rightarrow> jsval" where
  "replacer h expr =
     (case run h (''return '' @ expr) of Inl e \<Rightarrow> JStr ''undefined'' | Inr v \<Rightarrow> v)"

text \<open>\<open>evalTemplate\<close>: \<open>str.replace(/J\{([^}]+)\}/g, ...)\<close>, scanning from the left.\<close>

function evalTemplate :: "host \<Rightarrow> string \<Rightarrow> js_error + string" where
  "evalTemplate h [] = Inr []"
| "evalTemplate h (c # cs) =
     (case match_at (c # cs) of
        Some (expr, after) \<Rightarrow>
          (case to_string h (replacer h expr) of
             Inl e \<Rightarrow> Inl e
           | Inr r \<Rightarrow>
               (case evalTemplate h after of Inl e \<Rightarrow> Inl e | Inr t \<Rightarrow> Inr (r @ t)))
      | None \<Rightarrow>
          (case evalTemplate h cs of Inl e \<Rightarrow> Inl e | Inr t \<Rightarrow> Inr (c # t)))"
  by pat_completeness auto
termination
proof -
  have shorter: "length r < length s" if "match_at s = Some (e, r)" for s e r
  proof -
    from that obtain a b rest where s: "s = a # b # rest"
      and r: "dropWhile (\<lambda>c. c \<noteq> CHR ''}'') rest = CHR ''}'' # r \<or>
              (\<exists>d. dropWhile (\<lambda>c. c \<noteq> CHR ''}'') rest = d # r)"
      by (auto simp: match_at_def Let_def split: list.splits if_splits)
    have "length (dropWhile (\<lambda>c. c \<noteq> CHR ''}'') rest) \<le> length rest"
      by (rule length_dropWhile_le)
    with r have "Suc (length r) \<le> length rest" by auto
    with s show ?thesis by simp
  qed
  show ?thesis
    by (relation "measure (\<lambda>(h, s). length s)") (auto dest: shorter)
qed

section \<open>DOM primitives\<close>

text \<open>
  The store of a document: the nodes created so far, in the order of their creation (a
  reference is a position in this list), and the reference of the document element.
\<close>

record dom =
  nodes :: "node list"
  documentElement :: ref

definition node_of :: "dom \<Rightarrow> ref \<Rightarrow> node option" where
  "node_of d r = (if r < length (nodes d) then Some (nodes d ! r) else None)"

fun child_nodes :: "node \<Rightarrow> ref list" where
  "child_nodes (Element t as cs) = cs"
| "child_nodes (TextNode s) = []"

fun attrs :: "node \<Rightarrow> (string \<times> string) list" where
  "attrs (Element t as cs) = as"
| "attrs (TextNode s) = []"

fun with_children :: "ref list \<Rightarrow> node \<Rightarrow> node" where
  "with_children ks (Element t as cs) = Element t as ks"
| "with_children ks (TextNode s) = TextNode s"

fun with_attrs :: "(string \<times> string) list \<Rightarrow> node \<Rightarrow> node" where
  "with_attrs as' (Element t as cs) = Element t as' cs"
| "with_attrs as' (TextNode s) = TextNode s"

fun is_element :: "node \<Rightarrow> bool" where
  "is_element (Element t as cs) = True"
| "is_element (TextNode s) = False"

fun is_tag :: "string \<Rightarrow> node \<Rightarrow> bool" where
  "is_tag name (Element t as cs) = (t = name)"
| "is_tag name (TextNode s) = False"

definition child_refs :: "dom \<Rightarrow> ref \<Rightarrow> ref list" where
  "child_refs d r = (case node_of d r of None \<Rightarrow> [] | Some n \<Rightarrow> child_nodes n)"

definition attrs_of :: "dom \<Rightarrow> ref \<Rightarrow> (string \<times> string) list" where
  "attrs_of d r = (case node_of d r of None \<Rightarrow> [] | Some n \<Rightarrow> attrs n)"

definition element_ref :: "dom \<Rightarrow> ref \<Rightarrow> bool" where
  "element_ref d r = (case node_of d r of None \<Rightarrow> False | Some n \<Rightarrow> is_element n)"

definition tag_ref :: "dom \<Rightarrow> string \<Rightarrow> ref \<Rightarrow> bool" where
  "tag_ref d name r = (case node_of d r of None \<Rightarrow> False | Some n \<Rightarrow> is_tag name n)"

text \<open>Creating a node: it joins the store, attached nowhere.\<close>

definition alloc :: "dom \<Rightarrow> node \<Rightarrow> dom \<times> ref" where
  "alloc d n = (d\<lparr>nodes := nodes d @ [n]\<rparr>, length (nodes d))"

definition set_children :: "dom \<Rightarrow> ref \<Rightarrow> ref list \<Rightarrow> dom" where
  "set_children d r ks =
     (if r < length (nodes d) then d\<lparr>nodes := (nodes d)[r := with_children ks (nodes d ! r)]\<rparr>
      else d)"

definition set_attrs :: "dom \<Rightarrow> ref \<Rightarrow> (string \<times> string) list \<Rightarrow> dom" where
  "set_attrs d r as =
     (if r < length (nodes d) then d\<lparr>nodes := (nodes d)[r := with_attrs as (nodes d ! r)]\<rparr>
      else d)"

text \<open>Taking a node away from its parent: no element lists it as a child any more.\<close>

definition detach :: "dom \<Rightarrow> ref \<Rightarrow> dom" where
  "detach d c = d\<lparr>nodes := map (\<lambda>n. with_children (removeAll c (child_nodes n)) n) (nodes d)\<rparr>"

text \<open>
  The parent of a node, and the test whether \<open>a\<close> is \<open>x\<close> or one of its ancestors; the
  walk upwards is as long as the store has nodes.
\<close>

definition parent_of :: "dom \<Rightarrow> ref \<Rightarrow> ref option" where
  "parent_of d c = find (\<lambda>p. c \<in> set (child_refs d p)) [0..<length (nodes d)]"

fun inclusive_ancestor :: "nat \<Rightarrow> dom \<Rightarrow> ref \<Rightarrow> ref \<Rightarrow> bool" where
  "inclusive_ancestor 0 d a x = (a = x)"
| "inclusive_ancestor (Suc n) d a x =
     (a = x \<or> (case parent_of d x of None \<Rightarrow> False | Some p \<Rightarrow> inclusive_ancestor n d a p))"

text \<open>In a well-formed store every child reference names a node of the store.\<close>

definition well_formed :: "dom \<Rightarrow> bool" where
  "well_formed d = (\<forall>n \<in> set (nodes d). \<forall>c \<in> set (child_nodes n). c < length (nodes d))"

text \<open>
  \<open>parent.appendChild(child)\<close>: only an element takes children, a node is never put
  below itself, and a child that sits somewhere is moved from there to the end of the
  parent's children.
\<close>

definition node_appendChild :: "dom \<Rightarrow> ref \<Rightarrow> ref \<Rightarrow> js_error + dom" where
  "node_appendChild d parent child =
     (if node_of d child = None then Inl TypeError
      else if \<not> element_ref d parent then Inl HierarchyRequestError
      else if inclusive_ancestor (length (nodes d)) d child parent then Inl HierarchyRequestError
      else Inr (set_children (detach d child) parent
                  (child_refs (detach d child) parent @ [child])))"

text \<open>
  \<open>parent.replaceChild(newNode, old)\<close>. The parent \<open>None\<close> is the document itself,
  whose only child is the document element.
\<close>

definition node_replaceChild :: "dom \<Rightarrow> ref option \<Rightarrow> ref \<Rightarrow> ref \<Rightarrow> js_error + dom" where
  "node_replaceChild d parent newNode old =
     (if node_of d newNode = None then Inl TypeError
      else
        (case parent of
           None \<Rightarrow>
             (if \<not> element_ref d newNode then Inl HierarchyRequestError
              else if documentElement d \<noteq> old then Inl NotFoundError
              else Inr ((detach d newNode)\<lparr>documentElement := newNode\<rparr>))
         | Some p \<Rightarrow>
             (if \<not> element_ref d p then Inl HierarchyRequestError
              else if inclusive_ancestor (length (nodes d)) d newNode p
                then Inl HierarchyRequestError
              else if old \<notin> set (child_refs d p) then Inl NotFoundError
              else if newNode = old then Inr d
              else Inr (set_children (detach d newNode) p
                          (map (\<lambda>c. if c = old then newNode else c)
                             (child_refs (detach d newNode) p))))))"

text \<open>
  \<open>setAttribute\<close>: the value is converted to a string first, then the name is checked
  and put in lower case, then the attribute is replaced or appended.
\<close>

fun set_attr :: "(string \<times> string) list \<Rightarrow> string \<Rightarrow> string \<Rightarrow> (string \<times> string) list" where
  "set_attr [] k v = [(k, v)]"
| "set_attr ((k', v') # as) k v =
     (if k' = k then (k, v) # as else (k', v') # set_attr as k v)"

definition setAttribute ::
  "host \<Rightarrow> (string \<times> string) list \<Rightarrow> string \<Rightarrow> jsval \<Rightarrow> js_error + (string \<times> string) list" where
  "setAttribute h as key v =
     (case to_string h v of
        Inl e \<Rightarrow> Inl e
      | Inr s \<Rightarrow>
          (if valid_attribute_name h key then Inr (set_attr as (ascii_lower key) s)
           else Inl InvalidCharacterError))"

definition is_ws :: "char \<Rightarrow> bool" where
  "is_ws c = (c \<in> set [CHR 0x09, CHR 0x0A, CHR 0x0C, CHR 0x0D, CHR 0x20])"

fun split_ws :: "string \<Rightarrow> string \<Rightarrow> string list" where
  "split_ws [] cur = (if cur = [] then [] else [cur])"
| "split_ws (c # cs) cur =
     (if is_ws c then (if cur = [] then split_ws cs [] else cur # split_ws cs [])
      else split_ws cs (cur @ [c]))"

fun join_sp :: "string list \<Rightarrow> string" where
  "join_sp [] = []"
| "join_sp [t] = t"
| "join_sp (t # ts) = t @ '' '' @ join_sp ts"

text \<open>
  \<open>classList.add(token)\<close>: an empty token and a token with whitespace are rejected;
  otherwise the token joins the ordered set read from the \<open>class\<close> attribute, which is
  written back.
\<close>

definition classList_add ::
  "(string \<times> string) list \<Rightarrow> string \<Rightarrow> js_error + (string \<times> string) list" where
  "classList_add as token =
     (if token = [] then Inl SyntaxError
      else if list_ex is_ws token then Inl InvalidCharacterError
      else
        (let toks = remdups (split_ws (case map_of as ''class'' of None \<Rightarrow> [] | Some v \<Rightarrow> v) []);
             toks' = (if token \<in> set toks then toks else toks @ [token])
         in Inr (set_attr as ''class'' (join_sp toks'))))"

text \<open>
  \<open>Object.entries\<close>: the own enumerable string-keyed properties. A plain object is
  the list of its properties, with distinct keys; numbers, booleans, symbols, functions
  and nodes have none.
\<close>

fun entries :: "jsval \<Rightarrow> js_error + (string \<times> jsval) list" where
  "entries JUndefined = Inl TypeError"
| "entries JNull = Inl TypeError"
| "entries (JObj kvs) = Inr kvs"
| "entries (JArr xs) = Inr (zip (map nat_digits [0..<length xs]) xs)"
| "entries (JStr s) = Inr (zip (map nat_digits [0..<length s]) (map (\<lambda>c. JStr [c]) s))"
| "entries _ = Inr []"

text \<open>
  Reading a named property. The names the source reads this way (\<open>id\<close>, \<open>ui\<close>,
  \<open>theme\<close>, \<open>global\<close>, \<open>pages\<close>, \<open>headers\<close>, \<open>footers\<close>) are not inherited
  from \<open>Object.prototype\<close>; property bags and configuration sections are plain objects
  or primitives.
\<close>

fun get_prop :: "jsval \<Rightarrow> string \<Rightarrow> js_error + jsval" where
  "get_prop JUndefined k = Inl TypeError"
| "get_prop JNull k = Inl TypeError"
| "get_prop (JObj kvs) k = Inr (case map_of kvs k of None \<Rightarrow> JUndefined | Some v \<Rightarrow> v)"
| "get_prop _ k = Inr JUndefined"

text \<open>
  \<open>document.getElementById\<close>: the first element in tree order, from the document
  element down, whose \<open>id\<close> attribute is the given non-empty string. The walk goes as
  deep as the store has nodes.
\<close>

fun find_id :: "nat \<Rightarrow> dom \<Rightarrow> string \<Rightarrow> ref \<Rightarrow> ref option"
  and find_id_list :: "nat \<Rightarrow> dom \<Rightarrow> string \<Rightarrow> ref list \<Rightarrow> ref option" where
  "find_id 0 d i r = None"
| "find_id (Suc n) d i r =
     (case node_of d r of
        Some (Element t as cs) \<Rightarrow>
          (if map_of as ''id'' = Some i then Some r else find_id_list n d i cs)
      | _ \<Rightarrow> None)"
| "find_id_list n d i [] = None"
| "find_id_list n d i (c # cs) =
     (case find_id n d i c of Some x \<Rightarrow> Some x | None \<Rightarrow> find_id_list n d i cs)"

definition getElementById :: "dom \<Rightarrow> string \<Rightarrow> ref option" where
  "getElementById d i =
     (if i = [] then None else find_id (length (nodes d)) d i (documentElement d))"

text \<open>\<open>document.head\<close> and \<open>document.body\<close>: the first such child of the document element.\<close>

definition document_head :: "dom \<Rightarrow> ref option" where
  "document_head d = find (tag_ref d ''head'') (child_refs d (documentElement d))"

definition document_body :: "dom \<Rightarrow> ref option" where
  "document_body d = find (tag_ref d ''body'') (child_refs d (documentElement d))"

text \<open>
  \<open>textContent\<close> of a node, the text of its descendants in order, and the descendants
  themselves in tree order (\<open>querySelectorAll\<close> walks them).
\<close>

fun textContent :: "nat \<Rightarrow> dom \<Rightarrow> ref \<Rightarrow> string"
  and textContent_list :: "nat \<Rightarrow> dom \<Rightarrow> ref list \<Rightarrow> string" where
  "textContent 0 d r = []"
| "textContent (Suc n) d r =
     (case node_of d r of
        Some (TextNode s) \<Rightarrow> s
      | Some (Element t as cs) \<Rightarrow> textContent_list n d cs
      | None \<Rightarrow> [])"
| "textContent_list n d [] = []"
| "textContent_list n d (c # cs) = textContent n d c @ textContent_list n d cs"

fun descendants :: "nat \<Rightarrow> dom \<Rightarrow> ref list \<Rightarrow> ref list" where
  "descendants 0 d cs = []"
| "descendants (Suc n) d [] = []"
| "descendants (Suc n) d (c # cs) =
     c # descendants n d (child_refs d c) @ descendants (Suc n) d cs"

text \<open>
  The tree below a node, read off the store; the results of runs are stated with it.
\<close>

datatype tree = Tag string "(string \<times> string) list" "tree list" | Text string | Hole

fun tree_of :: "nat \<Rightarrow> dom \<Rightarrow> ref \<Rightarrow> tree" where
  "tree_of 0 d r = Hole"
| "tree_of (Suc n) d r =
     (case node_of d r of
        Some (TextNode s) \<Rightarrow> Text s
      | Some (Element t as cs) \<Rightarrow> Tag t as (map (tree_of n d) cs)
      | None \<Rightarrow> Hole)"

definition document_tree :: "dom \<Rightarrow> tree" where
  "document_tree d = tree_of (length (nodes d)) d (documentElement d)"

section \<open>The state of the module\<close>

text \<open>
  The registry \<open>__jesx_templates_raw\<close> is an ordinary object literal \<open>{}\<close>: besides
  its own properties, a read with a computed key also finds what \<open>Object.prototype\<close>
  defines, all of them truthy.
\<close>

datatype pkey = KString string | KSymbol string

record template =
  tag :: jsval
  props :: jsval
  children :: "jsval list"

type_synonym registry = "pkey \<Rightarrow> template option"

text \<open>
  The state the module keeps or reaches: \<open>instance.config\<close> (an object, read by
  property name), \<open>instance.loadedStyles\<close> (a set, kept in insertion order), the
  template registry, the document with its nodes, and the console's error log.
\<close>

record world =
  config :: "string \<Rightarrow> jsval option"
  loadedStyles :: "jsval list"
  templates :: registry
  store :: dom
  console :: "string list"

text \<open>Sequencing: a thrown error ends the run and keeps the state reached so far.\<close>

definition then_do ::
  "world \<times> (js_error + 'a) \<Rightarrow> (world \<Rightarrow> 'a \<Rightarrow> world \<times> (js_error + 'b)) \<Rightarrow> world \<times> (js_error + 'b)" where
  "then_do r f = (case r of (w, Inl e) \<Rightarrow> (w, Inl e) | (w, Inr a) \<Rightarrow> f w a)"

section \<open>Template registry and element builder\<close>

definition object_prototype_keys :: "string list" where
  "object_prototype_keys =
     [''constructor'', ''__defineGetter__'', ''__defineSetter__'', ''hasOwnProperty'',
      ''__lookupGetter__'', ''__lookupSetter__'', ''isPrototypeOf'', ''propertyIsEnumerable'',
      ''toString'', ''valueOf'', ''__proto__'', ''toLocaleString'']"

datatype lookup = Own template | Inherited | Missing

definition registry_get :: "registry \<Rightarrow> pkey \<Rightarrow> lookup" where
  "registry_get reg k =
     (case reg k of
        Some t \<Rightarrow> Own t
      | None \<Rightarrow>
          (case k of
             KString s \<Rightarrow> (if s \<in> set object_prototype_keys then Inherited else Missing)
           | KSymbol d \<Rightarrow> Missing))"

text \<open>The property key of a value: a symbol is its own key, anything else its string.\<close>

fun to_key :: "host \<Rightarrow> jsval \<Rightarrow> js_error + pkey" where
  "to_key h (JSymbol d) = Inr (KSymbol d)"
| "to_key h v = (case to_string h v of Inl e \<Rightarrow> Inl e | Inr s \<Rightarrow> Inr (KString s))"

text \<open>
  The step \<open>let nodeId = props && props.id; if (nodeId && !__jesx_templates_raw[nodeId])
  __jesx_templates_raw[nodeId] = { tag, props, children }\<close>.
\<close>

definition register_template ::
  "host \<Rightarrow> registry \<Rightarrow> jsval \<Rightarrow> jsval \<Rightarrow> jsval list \<Rightarrow> js_error + registry" where
  "register_template h reg tg ps cs =
     (case (if truthy ps then get_prop ps ''id'' else Inr ps) of
        Inl e \<Rightarrow> Inl e
      | Inr nodeId \<Rightarrow>
          (if truthy nodeId then
             (case to_key h nodeId of
                Inl e \<Rightarrow> Inl e
              | Inr k \<Rightarrow>
                  (case registry_get reg k of
                     Missing \<Rightarrow> Inr (reg(k \<mapsto> \<lparr>tag = tg, props = ps, children = cs\<rparr>))
                   | _ \<Rightarrow> Inr reg))
           else Inr reg))"

text \<open>One property of the bag: a class object, a style object, or a plain attribute.\<close>

fun add_classes :: "(string \<times> jsval) list \<Rightarrow> (string \<times> string) list \<Rightarrow> js_error + (string \<times> string) list" where
  "add_classes [] as = Inr as"
| "add_classes ((className, enabled) # rest) as =
     (if truthy enabled then
        (case classList_add as className of Inl e \<Rightarrow> Inl e | Inr as' \<Rightarrow> add_classes rest as')
      else add_classes rest as)"

fun add_styles :: "host \<Rightarrow> (string \<times> jsval) list \<Rightarrow> (string \<times> string) list \<Rightarrow> js_error + (string \<times> string) list" where
  "add_styles h [] as = Inr as"
| "add_styles h ((prop, val) # rest) as =
     (case set_style h as prop val of Inl e \<Rightarrow> Inl e | Inr as' \<Rightarrow> add_styles h rest as')"

definition set_property ::
  "host \<Rightarrow> string \<Rightarrow> jsval \<Rightarrow> (string \<times> string) list \<Rightarrow> js_error + (string \<times> string) list" where
  "set_property h key v as =
     (if key = ''class'' \<and> typeof v = ''object'' then
        (case entries v of Inl e \<Rightarrow> Inl e | Inr es \<Rightarrow> add_classes es as)
      else if key = ''style'' \<and> typeof v = ''object'' then
        (case entries v of Inl e \<Rightarrow> Inl e | Inr es \<Rightarrow> add_styles h es as)
      else setAttribute h as key v)"

fun set_properties :: "host \<Rightarrow> (string \<times> jsval) list \<Rightarrow> (string \<times> string) list \<Rightarrow> js_error + (string \<times> string) list" where
  "set_properties h [] as = Inr as"
| "set_properties h ((key, v) # rest) as =
     (case set_property h key v as of Inl e \<Rightarrow> Inl e | Inr as' \<Rightarrow> set_properties h rest as')"

text \<open>\<open>element.appendChild(document.createTextNode(text))\<close>.\<close>

definition append_text :: "dom \<Rightarrow> ref \<Rightarrow> string \<Rightarrow> dom \<times> js_error option" where
  "append_text d element t =
     (case alloc d (TextNode t) of
        (d1, tx) \<Rightarrow>
          (case node_appendChild d1 element tx of
             Inl e \<Rightarrow> (d1, Some e)
           | Inr d2 \<Rightarrow> (d2, None)))"

text \<open>
  The inner \<open>appendChild\<close> helper, in the order of its tests: an array recurses, a string
  or number becomes a text node after substitution, a node is appended as the node it is
  (and so leaves the place it had), null and undefined are skipped, anything else is
  stringified. The result is the store reached and the error thrown, if any.
\<close>

fun appendChild :: "host \<Rightarrow> dom \<Rightarrow> ref \<Rightarrow> jsval \<Rightarrow> dom \<times> js_error option"
  and appendChildren :: "host \<Rightarrow> dom \<Rightarrow> ref \<Rightarrow> jsval list \<Rightarrow> dom \<times> js_error option" where
  "appendChild h d element (JArr cs) = appendChildren h d element cs"
| "appendChild h d element (JStr s) =
     (case evalTemplate h s of Inl e \<Rightarrow> (d, Some e) | Inr t \<Rightarrow> append_text d element t)"
| "appendChild h d element (JNum n) =
     (case evalTemplate h (int_string n) of
        Inl e \<Rightarrow> (d, Some e)
      | Inr t \<Rightarrow> append_text d element t)"
| "appendChild h d element (JNode c) =
     (case node_appendChild d element c of Inl e \<Rightarrow> (d, Some e) | Inr d' \<Rightarrow> (d', None))"
| "appendChild h d element JNull = (d, None)"
| "appendChild h d element JUndefined = (d, None)"
| "appendChild h d element v =
     (case String_call h v of Inl e \<Rightarrow> (d, Some e) | Inr t \<Rightarrow> append_text d element t)"
| "appendChildren h d element [] = (d, None)"
| "appendChildren h d element (c # cs) =
     (case appendChild h d element c of
        (d', Some e) \<Rightarrow> (d', Some e)
      | (d', None) \<Rightarrow> appendChildren h d' element cs)"

text \<open>
  \<open>document.createElement(tag)\<close> in an HTML document: the name is the string of the
  tag, is checked, and is put in lower case.
\<close>

definition document_createElement :: "host \<Rightarrow> jsval \<Rightarrow> js_error + string" where
  "document_createElement h tg =
     (case to_string h tg of
        Inl e \<Rightarrow> Inl e
      | Inr name \<Rightarrow>
          (if valid_element_name h name then Inr (ascii_lower name)
           else Inl InvalidCharacterError))"

text \<open>
  The part of \<open>createElement\<close> that builds the element: it is created, receives its
  properties and then its children. An element whose build throws is reachable from
  nowhere; what had been moved into it stays moved.
\<close>

definition build_element ::
  "host \<Rightarrow> dom \<Rightarrow> jsval \<Rightarrow> jsval \<Rightarrow> jsval list \<Rightarrow> dom \<times> (js_error + ref)" where
  "build_element h d tg ps cs =
     (case document_createElement h tg of
        Inl e \<Rightarrow> (d, Inl e)
      | Inr name \<Rightarrow>
          (case alloc d (Element name [] []) of
             (d1, element) \<Rightarrow>
               (case (if truthy ps
                      then (case entries ps of Inl e \<Rightarrow> Inl e | Inr es \<Rightarrow> set_properties h es [])
                      else Inr []) of
                  Inl e \<Rightarrow> (d1, Inl e)
                | Inr as \<Rightarrow>
                    (case appendChildren h (set_attrs d1 element as) element cs of
                       (d2, Some e) \<Rightarrow> (d2, Inl e)
                     | (d2, None) \<Rightarrow> (d2, Inr element)))))"

text \<open>
  \<open>createElement(tag, props, ...children)\<close>. A registration made before a later step
  throws stays.
\<close>

definition createElement ::
  "host \<Rightarrow> world \<Rightarrow> jsval \<Rightarrow> jsval \<Rightarrow> jsval list \<Rightarrow> world \<times> (js_error + jsval)" where
  "createElement h w tg ps cs =
     (case tg of
        JFun k c \<Rightarrow>
          (case k of
             NotConstructible \<Rightarrow> (w, Inl TypeError)
           | Constructible \<Rightarrow> (w, instantiate h c ps))
      | _ \<Rightarrow>
          (case register_template h (templates w) tg ps cs of
             Inl e \<Rightarrow> (w, Inl e)
           | Inr reg \<Rightarrow>
               (case build_element h (store w) tg ps cs of
                  (d, Inl e) \<Rightarrow> (w\<lparr>templates := reg, store := d\<rparr>, Inl e)
                | (d, Inr element) \<Rightarrow> (w\<lparr>templates := reg, store := d\<rparr>, Inr (JNode element)))))"

section \<open>The singleton: configuration and styles\<close>

text \<open>The configuration the constructor sets up.\<close>

definition initial_config :: "string \<Rightarrow> jsval option" where
  "initial_config =
     [''title'' \<mapsto> JStr ''Site'',
      ''ui'' \<mapsto> JObj [(''theme'', JStr ''light'')],
      ''style'' \<mapsto> JNull,
      ''styles'' \<mapsto> JArr [],
      ''global'' \<mapsto> JObj [(''headers'', JArr []), (''footers'', JArr []),
                           (''pages'', JArr [JStr ''*''])],
      ''pages'' \<mapsto> JObj []]"

definition config_get :: "world \<Rightarrow> string \<Rightarrow> jsval" where
  "config_get w k = (case config w k of None \<Rightarrow> JUndefined | Some v \<Rightarrow> v)"

text \<open>
  \<open>addStyle(url)\<close>: the link element is created, then \<open>href\<close> is set, then the head
  receives it; \<open>addDefaultStyles()\<close> is the same for \<open>defaultstyles.css\<close>.
\<close>

definition addStyle :: "host \<Rightarrow> world \<Rightarrow> jsval \<Rightarrow> world \<times> (js_error + unit)" where
  "addStyle h w url =
     (if url \<in> set (loadedStyles w) then (w, Inr ())
      else
        (case alloc (store w) (Element ''link'' [(''rel'', ''stylesheet'')] []) of
           (d1, link) \<Rightarrow>
             (case to_string h url of
                Inl e \<Rightarrow> (w\<lparr>store := d1\<rparr>, Inl e)
              | Inr href \<Rightarrow>
                  (case document_head d1 of
                     None \<Rightarrow> (w\<lparr>store := d1\<rparr>, Inl TypeError)
                   | Some head \<Rightarrow>
                       (case node_appendChild
                               (set_attrs d1 link [(''rel'', ''stylesheet''), (''href'', href)])
                               head link of
                          Inl e \<Rightarrow>
                            (w\<lparr>store := set_attrs d1 link
                                  [(''rel'', ''stylesheet''), (''href'', href)]\<rparr>, Inl e)
                        | Inr d2 \<Rightarrow>
                            (w\<lparr>store := d2, loadedStyles := loadedStyles w @ [url]\<rparr>, Inr ()))))))"

definition addDefaultStyles :: "host \<Rightarrow> world \<Rightarrow> world \<times> (js_error + unit)" where
  "addDefaultStyles h w = addStyle h w (JStr ''defaultstyles.css'')"

fun addStyles :: "host \<Rightarrow> world \<Rightarrow> jsval list \<Rightarrow> world \<times> (js_error + unit)" where
  "addStyles h w [] = (w, Inr ())"
| "addStyles h w (url # urls) = then_do (addStyle h w url) (\<lambda>w' u. addStyles h w' urls)"

text \<open>
  \<open>addInlineStyle(css)\<close>: skipped when some \<open>style\<close> element below the head has
  exactly this text; otherwise a \<open>style\<close> element with this text joins the head.
\<close>

definition addInlineStyle :: "host \<Rightarrow> world \<Rightarrow> jsval \<Rightarrow> world \<times> (js_error + unit)" where
  "addInlineStyle h w css =
     (let d = store w in
      case document_head d of
        None \<Rightarrow> (w, Inl TypeError)
      | Some head \<Rightarrow>
          (if list_ex (\<lambda>st. JStr (textContent (length (nodes d)) d st) = css)
                (filter (tag_ref d ''style'')
                   (descendants (length (nodes d)) d (child_refs d head)))
           then (w, Inr ())
           else
             (case alloc d (Element ''style'' [] []) of
                (d1, style) \<Rightarrow>
                  (case (case css of JNull \<Rightarrow> Inr [] | _ \<Rightarrow> to_string h css) of
                     Inl e \<Rightarrow> (w\<lparr>store := d1\<rparr>, Inl e)
                   | Inr t \<Rightarrow>
                       (let d2 = (if t = [] then d1
                                  else (case alloc d1 (TextNode t) of
                                          (d', tx) \<Rightarrow> set_children d' style [tx]))
                        in case document_head d2 of
                             None \<Rightarrow> (w\<lparr>store := d2\<rparr>, Inl TypeError)
                           | Some head' \<Rightarrow>
                               (case node_appendChild d2 head' style of
                                  Inl e \<Rightarrow> (w\<lparr>store := d2\<rparr>, Inl e)
                                | Inr d3 \<Rightarrow> (w\<lparr>store := d3\<rparr>, Inr ())))))))"

text \<open>\<open>Object.assign(target, source)\<close> on the configuration; a missing source is skipped.\<close>

definition assign_entry :: "string \<times> jsval \<Rightarrow> (string \<Rightarrow> jsval option) \<Rightarrow> (string \<Rightarrow> jsval option)" where
  "assign_entry e target = target(fst e \<mapsto> snd e)"

definition object_assign :: "(string \<Rightarrow> jsval option) \<Rightarrow> jsval \<Rightarrow> (string \<Rightarrow> jsval option)" where
  "object_assign target src =
     (case entries src of
        Inl e \<Rightarrow> target
      | Inr es \<Rightarrow> fold assign_entry es target)"

definition apply_theme :: "host \<Rightarrow> world \<Rightarrow> world \<times> (js_error + unit)" where
  "apply_theme h w =
     (let ui = config_get w ''ui'' in
      case (if truthy ui then get_prop ui ''theme'' else Inr ui) of
        Inl e \<Rightarrow> (w, Inl e)
      | Inr theme \<Rightarrow>
          (if truthy theme then
             (case document_body (store w) of
                None \<Rightarrow> (w, Inl TypeError)
              | Some b \<Rightarrow>
                  (case setAttribute h (attrs_of (store w) b) ''data-theme'' theme of
                     Inl e \<Rightarrow> (w, Inl e)
                   | Inr as \<Rightarrow> (w\<lparr>store := set_attrs (store w) b as\<rparr>, Inr ())))
           else (w, Inr ())))"

text \<open>\<open>cfg(config)\<close>; it returns \<open>this\<close>.\<close>

definition cfg :: "host \<Rightarrow> world \<Rightarrow> jsval \<Rightarrow> world \<times> (js_error + jsval)" where
  "cfg h w overlay =
     then_do (apply_theme h (w\<lparr>config := object_assign (config w) overlay\<rparr>)) (\<lambda>w u.
     then_do (if truthy (config_get w ''style'') then addStyle h w (config_get w ''style'')
              else (w, Inr ())) (\<lambda>w u.
     then_do (case config_get w ''styles'' of JArr urls \<Rightarrow> addStyles h w urls | _ \<Rightarrow> (w, Inr ())) (\<lambda>w u.
     then_do (if truthy (config_get w ''inlineStyle'')
              then addInlineStyle h w (config_get w ''inlineStyle'')
              else (w, Inr ())) (\<lambda>w u.
     (w, Inr JInstance)))))"

text \<open>
  What the documentation of \<open>cfg\<close> asks of the merged configuration and of the page:
  the theme, the stylesheet URLs and the inline style have a string form, and the
  document has a head and a body whose \<open>data-theme\<close> attribute the host accepts.
\<close>

definition theme_of :: "world \<Rightarrow> jsval" where
  "theme_of w =
     (let ui = config_get w ''ui'' in
      case (if truthy ui then get_prop ui ''theme'' else Inr ui) of
        Inl e \<Rightarrow> JUndefined
      | Inr theme \<Rightarrow> theme)"

definition has_string :: "host \<Rightarrow> jsval \<Rightarrow> bool" where
  "has_string h v = (case to_string h v of Inl e \<Rightarrow> False | Inr s \<Rightarrow> True)"

definition documented_config :: "host \<Rightarrow> world \<Rightarrow> bool" where
  "documented_config h w =
     (document_head (store w) \<noteq> None \<and> document_body (store w) \<noteq> None
      \<and> valid_attribute_name h ''data-theme''
      \<and> has_string h (theme_of w)
      \<and> has_string h (config_get w ''style'')
      \<and> (case config_get w ''styles'' of JArr urls \<Rightarrow> list_all (has_string h) urls | _ \<Rightarrow> True)
      \<and> has_string h (config_get w ''inlineStyle''))"

section \<open>Route resolver\<close>

text \<open>
  The host's \<open>Location.hash\<close> getter: the empty string when the URL has no fragment
  or an empty one, otherwise \<open>#\<close> followed by the fragment.
\<close>

definition hash_of_fragment :: "string option \<Rightarrow> string" where
  "hash_of_fragment f =
     (case f of None \<Rightarrow> [] | Some x \<Rightarrow> (if x = [] then [] else CHR ''#'' # x))"

text \<open>\<open>getCurrentRoute\<close>: \<open>hash = window.location.hash.slice(1); hash ? "/" + hash : "/"\<close>.\<close>

definition getCurrentRoute :: "host \<Rightarrow> string" where
  "getCurrentRoute h =
     (let hash = drop 1 (location_hash h) in if hash \<noteq> [] then ''/'' @ hash else ''/'')"

fun contains :: "string \<Rightarrow> string \<Rightarrow> bool" where
  "contains x [] = (x = [])"
| "contains x (c # cs) = (take (length x) (c # cs) = x \<or> contains x cs)"

text \<open>
  \<open>v.includes(x)\<close> for a string \<open>x\<close>: membership in an array, the substring test on a
  string, and a TypeError on a value without the method.
\<close>

definition includes_str :: "jsval \<Rightarrow> string \<Rightarrow> js_error + bool" where
  "includes_str v x =
     (case v of
        JArr xs \<Rightarrow> Inr (JStr x \<in> set xs)
      | JStr s \<Rightarrow> Inr (contains x s)
      | _ \<Rightarrow> Inl TypeError)"

definition shouldHaveGlobal :: "world \<Rightarrow> string \<Rightarrow> js_error + bool" where
  "shouldHaveGlobal w page =
     (case get_prop (config_get w ''global'') ''pages'' of
        Inl e \<Rightarrow> Inl e
      | Inr globalPages \<Rightarrow>
          (case includes_str globalPages ''*'' of
             Inl e \<Rightarrow> Inl e
           | Inr b \<Rightarrow> (if b then Inr True else includes_str globalPages page)))"

definition getGlobalHeaders :: "world \<Rightarrow> string \<Rightarrow> js_error + jsval" where
  "getGlobalHeaders w page =
     (case shouldHaveGlobal w page of
        Inl e \<Rightarrow> Inl e
      | Inr b \<Rightarrow> (if b then get_prop (config_get w ''global'') ''headers'' else Inr (JArr [])))"

definition getGlobalFooters :: "world \<Rightarrow> string \<Rightarrow> js_error + jsval" where
  "getGlobalFooters w page =
     (case shouldHaveGlobal w page of
        Inl e \<Rightarrow> Inl e
      | Inr b \<Rightarrow> (if b then get_prop (config_get w ''global'') ''footers'' else Inr (JArr [])))"

section \<open>App renderer\<close>

text \<open>\<open>renderComponent(component)\<close>: \<open>new component().render()\<close>.\<close>

definition renderComponent :: "host \<Rightarrow> jsval \<Rightarrow> js_error + jsval" where
  "renderComponent h component =
     (case component of
        JFun Constructible c \<Rightarrow> instantiate h c JUndefined
      | _ \<Rightarrow> Inl TypeError)"

text \<open>
  The body component: \<open>pages.hasOwnProperty(route) ? pages[route] : pages['/']\<close>. The
  page map is a plain object; a route starts with \<open>/\<close> and so names no property of an
  array, a string or a function.
\<close>

definition select_component :: "world \<Rightarrow> string \<Rightarrow> js_error + jsval" where
  "select_component w route =
     (case config_get w ''pages'' of
        JUndefined \<Rightarrow> Inl TypeError
      | JNull \<Rightarrow> Inl TypeError
      | JObj kvs \<Rightarrow>
          (case map_of kvs route of
             Some v \<Rightarrow> Inr v
           | None \<Rightarrow> Inr (case map_of kvs ''/'' of None \<Rightarrow> JUndefined | Some v \<Rightarrow> v))
      | _ \<Rightarrow> Inr JUndefined)"

text \<open>
  The mount container: \<open>document.getElementById('app')\<close>, or a new
  \<open>j("div", { id: "app" })\<close> appended to the body. The literal \<open>"div"\<close> takes the
  default branch of \<open>j\<close>, which is \<open>createElement\<close>.
\<close>

definition ensure_root :: "host \<Rightarrow> world \<Rightarrow> world \<times> (js_error + ref)" where
  "ensure_root h w =
     (case getElementById (store w) ''app'' of
        Some root \<Rightarrow> (w, Inr root)
      | None \<Rightarrow>
          (case createElement h w (JStr ''div'') (JObj [(''id'', JStr ''app'')]) [] of
             (w1, Inl e) \<Rightarrow> (w1, Inl e)
           | (w1, Inr v) \<Rightarrow>
               (case document_body (store w1) of
                  None \<Rightarrow> (w1, Inl TypeError)
                | Some body \<Rightarrow>
                    (case v of
                       JNode root \<Rightarrow>
                         (case node_appendChild (store w1) body root of
                            Inl e \<Rightarrow> (w1, Inl e)
                          | Inr d \<Rightarrow> (w1\<lparr>store := d\<rparr>, Inr root))
                     | _ \<Rightarrow> (w1, Inl TypeError)))))"

text \<open>The style steps of \<open>renderApp\<close>.\<close>

definition ensure_styles :: "host \<Rightarrow> world \<Rightarrow> world \<times> (js_error + unit)" where
  "ensure_styles h w =
     then_do (if JStr ''defaultstyles.css'' \<notin> set (loadedStyles w) then addDefaultStyles h w
              else (w, Inr ())) (\<lambda>w u.
     then_do (if truthy (config_get w ''style'') \<and> config_get w ''style'' \<notin> set (loadedStyles w)
              then addStyle h w (config_get w ''style'') else (w, Inr ())) (\<lambda>w u.
     (if truthy (config_get w ''styles'') then
        (case config_get w ''styles'' of
           JArr urls \<Rightarrow> addStyles h w urls
         | _ \<Rightarrow> (w, Inl TypeError))
      else (w, Inr ()))))"

text \<open>
  \<open>parent.appendChild(v)\<close> for a value handed over by a component: it has to be a node.
\<close>

definition append_value :: "dom \<Rightarrow> ref \<Rightarrow> jsval \<Rightarrow> js_error + dom" where
  "append_value d parent v =
     (case v of JNode n \<Rightarrow> node_appendChild d parent n | _ \<Rightarrow> Inl TypeError)"

text \<open>
  \<open>list.forEach(C => root.appendChild(this.renderComponent(C)))\<close>: the store reached,
  and the error that stopped the loop, if any.
\<close>

fun append_components :: "host \<Rightarrow> jsval list \<Rightarrow> dom \<Rightarrow> ref \<Rightarrow> dom \<times> js_error option" where
  "append_components h [] d root = (d, None)"
| "append_components h (c # cs) d root =
     (case renderComponent h c of
        Inl e \<Rightarrow> (d, Some e)
      | Inr v \<Rightarrow>
          (case append_value d root v of
             Inl e \<Rightarrow> (d, Some e)
           | Inr d' \<Rightarrow> append_components h cs d' root))"

definition for_each_component ::
  "host \<Rightarrow> jsval \<Rightarrow> dom \<Rightarrow> ref \<Rightarrow> dom \<times> js_error option" where
  "for_each_component h list d root =
     (case list of JArr cs \<Rightarrow> append_components h cs d root | _ \<Rightarrow> (d, Some TypeError))"

fun append_values :: "jsval list \<Rightarrow> dom \<Rightarrow> ref \<Rightarrow> dom \<times> js_error option" where
  "append_values [] d parent = (d, None)"
| "append_values (v # vs) d parent =
     (case append_value d parent v of
        Inl e \<Rightarrow> (d, Some e)
      | Inr d' \<Rightarrow> append_values vs d' parent)"

text \<open>What the content wrapper receives: every element of an array, or the one value.\<close>

definition content_values :: "jsval \<Rightarrow> jsval list" where
  "content_values content = (case content of JArr es \<Rightarrow> es | _ \<Rightarrow> [content])"

text \<open>
  From \<open>root.innerHTML = ''\<close> to the end of \<open>renderApp\<close>: the container is emptied,
  the wrapper is created, the headers go into the container, the body's output into the
  wrapper, the wrapper into the container, and the footers after it. An error leaves
  what was done before it.
\<close>

definition fill_root ::
  "host \<Rightarrow> world \<Rightarrow> ref \<Rightarrow> string \<Rightarrow> jsval \<Rightarrow> world \<times> (js_error + unit)" where
  "fill_root h w root route content =
     (case createElement h (w\<lparr>store := set_children (store w) root []\<rparr>) (JStr ''div'')
             (JObj [(''class'', JStr ''main-content'')]) [] of
        (w1, Inl e) \<Rightarrow> (w1, Inl e)
      | (w1, Inr mainv) \<Rightarrow>
          (case getGlobalHeaders w1 route of
             Inl e \<Rightarrow> (w1, Inl e)
           | Inr headers \<Rightarrow>
               (case for_each_component h headers (store w1) root of
                  (d2, Some e) \<Rightarrow> (w1\<lparr>store := d2\<rparr>, Inl e)
                | (d2, None) \<Rightarrow>
                    (case mainv of
                       JNode main \<Rightarrow>
                         (case append_values (content_values content) d2 main of
                            (d3, Some e) \<Rightarrow> (w1\<lparr>store := d3\<rparr>, Inl e)
                          | (d3, None) \<Rightarrow>
                              (case node_appendChild d3 root main of
                                 Inl e \<Rightarrow> (w1\<lparr>store := d3\<rparr>, Inl e)
                               | Inr d4 \<Rightarrow>
                                   (case getGlobalFooters w1 route of
                                      Inl e \<Rightarrow> (w1\<lparr>store := d4\<rparr>, Inl e)
                                    | Inr footers \<Rightarrow>
                                        (case for_each_component h footers d4 root of
                                           (d5, Some e) \<Rightarrow> (w1\<lparr>store := d5\<rparr>, Inl e)
                                         | (d5, None) \<Rightarrow> (w1\<lparr>store := d5\<rparr>, Inr ())))))
                     | _ \<Rightarrow> (w1\<lparr>store := d2\<rparr>, Inl TypeError)))))"

text \<open>\<open>renderApp()\<close>, from the test of the selected component on.\<close>

definition render_with :: "host \<Rightarrow> world \<Rightarrow> string \<Rightarrow> jsval \<Rightarrow> world \<times> (js_error + unit)" where
  "render_with h w route component =
     (if typeof component \<noteq> ''function'' then
        (w\<lparr>console := console w @ [''Invalid component for route: '' @ route]\<rparr>, Inr ())
      else
        then_do (ensure_root h w) (\<lambda>w root.
          (case renderComponent h component of
             Inl e \<Rightarrow> (w, Inl e)
           | Inr content \<Rightarrow>
               then_do (ensure_styles h w) (\<lambda>w u. fill_root h w root route content))))"

text \<open>\<open>renderApp()\<close>.\<close>

definition renderApp :: "host \<Rightarrow> world \<Rightarrow> world \<times> (js_error + unit)" where
  "renderApp h w =
     (let route = getCurrentRoute h in
      case select_component w route of
        Inl e \<Rightarrow> (w, Inl e)
      | Inr component \<Rightarrow> render_with h w route component)"

section \<open>Partial re-render and the entry point\<close>

text \<open>
  \<open>rcmp(id)\<close>. A node found by \<open>document.getElementById\<close> is in the document and so
  has a parent, an element or the document itself. The rebuild calls \<open>j\<close> again, which
  is the first argument here; a template found only on \<open>Object.prototype\<close> has no
  \<open>children\<close> to spread.
\<close>

definition rcmp ::
  "(world \<Rightarrow> jsval list \<Rightarrow> (world \<times> (js_error + jsval)) option) \<Rightarrow>
     host \<Rightarrow> world \<Rightarrow> jsval \<Rightarrow> (world \<times> (js_error + jsval)) option" where
  "rcmp jrec h w idv =
     (case to_string h idv of
        Inl e \<Rightarrow> Some (w, Inl e)
      | Inr s \<Rightarrow>
          (case getElementById (store w) s of
             None \<Rightarrow> Some (w, Inr JUndefined)
           | Some node \<Rightarrow>
               (case to_key h idv of
                  Inl e \<Rightarrow> Some (w, Inl e)
                | Inr k \<Rightarrow>
                    (case registry_get (templates w) k of
                       Missing \<Rightarrow> Some (w, Inr JUndefined)
                     | Inherited \<Rightarrow> Some (w, Inl TypeError)
                     | Own tpl \<Rightarrow>
                         (case jrec w (tag tpl # props tpl # children tpl) of
                            None \<Rightarrow> None
                          | Some (w', Inl e) \<Rightarrow> Some (w', Inl e)
                          | Some (w', Inr v) \<Rightarrow>
                              (case v of
                                 JNode newNode \<Rightarrow>
                                   (case node_replaceChild (store w') (parent_of (store w) node)
                                           newNode node of
                                      Inl e \<Rightarrow> Some (w', Inl e)
                                    | Inr d \<Rightarrow> Some (w'\<lparr>store := d\<rparr>, Inr JUndefined))
                               | _ \<Rightarrow> Some (w', Inl TypeError)))))))"

definition arg :: "jsval list \<Rightarrow> nat \<Rightarrow> jsval" where
  "arg args i = (if i < length args then args ! i else JUndefined)"

text \<open>
  \<open>j(...args)\<close>. The first argument bounds the depth of the calls of \<open>j\<close> inside
  \<open>rcmp\<close>; \<open>None\<close> is a call stack deeper than that.
\<close>

fun j :: "nat \<Rightarrow> host \<Rightarrow> world \<Rightarrow> jsval list \<Rightarrow> (world \<times> (js_error + jsval)) option" where
  "j 0 h w args = None"
| "j (Suc n) h w args =
     (if arg args 0 = JStr ''cfg'' then Some (cfg h w (arg args 1))
      else if arg args 0 = JStr ''render'' then
        Some (then_do (renderApp h w) (\<lambda>w u. (w, Inr JUndefined)))
      else if arg args 0 = JStr ''rcmp'' then rcmp (j n h) h w (arg args 1)
      else Some (createElement h w (arg args 0) (arg args 1) (drop 2 args)))"

section \<open>A sample page\<close>

text \<open>
  A host and a state to run the definitions on: a global scope that holds a variable
  \<open>counter\<close>, names without white space, and an empty HTML document. Three elements
  wait in the store, attached nowhere: each of the three component classes (a page
  body, a header and a footer) renders its own.
\<close>

definition sample_run :: "int \<Rightarrow> string \<Rightarrow> js_error + jsval" where
  "sample_run counter body =
     (if body = ''return 1+1'' then Inr (JNum 2)
      else if body = ''return counter'' then Inr (JNum counter)
      else if body = ''return Symbol()'' then Inr (JSymbol [])
      else Inl ReferenceError)"

definition sample_component :: "nat \<Rightarrow> jsval \<Rightarrow> js_error + jsval" where
  "sample_component c ps = Inr (JNode (if c = 0 then 3 else if c = 1 then 4 else 5))"

definition sample_name :: "string \<Rightarrow> bool" where
  "sample_name s = (s \<noteq> [] \<and> \<not> list_ex is_ws s)"

definition sample_host :: "int \<Rightarrow> host" where
  "sample_host counter =
     \<lparr>run = sample_run counter, instantiate = sample_component,
      obj_string = (\<lambda>v. Inr ''[object Object]''),
      valid_element_name = sample_name, valid_attribute_name = sample_name,
      set_style = (\<lambda>as p v. Inr as), location_hash = []\<rparr>"

definition sample_document :: dom where
  "sample_document =
     \<lparr>nodes = [Element ''html'' [] [1, 2], Element ''head'' [] [], Element ''body'' [] [],
               Element ''section'' [] [], Element ''header'' [] [], Element ''footer'' [] []],
      documentElement = 0\<rparr>"

definition sample_world :: world where
  "sample_world =
     \<lparr>config = initial_config, loadedStyles = [], templates = Map.empty,
      store = sample_document, console = []\<rparr>"

text \<open>
  The sample site: the body component on \<open>/\<close>, one header and one footer on every
  page. The second site registers an arrow function as its page, which \<open>typeof\<close>
  reports as a function and \<open>new\<close> rejects. The third site lists the header component
  twice as a header and once more as a footer, so that one element is rendered three
  times.
\<close>

definition sample_site :: world where
  "sample_site =
     sample_world\<lparr>config := (config sample_world)
       (''pages'' \<mapsto> JObj [(''/'', JFun Constructible 0)],
        ''global'' \<mapsto> JObj [(''headers'', JArr [JFun Constructible 1]),
                             (''footers'', JArr [JFun Constructible 2]),
                             (''pages'', JArr [JStr ''*''])])\<rparr>"

definition arrow_site :: world where
  "arrow_site =
     sample_world\<lparr>config := (config sample_world)
       (''pages'' \<mapsto> JObj [(''/'', JFun NotConstructible 0)])\<rparr>"

definition shared_site :: world where
  "shared_site =
     sample_world\<lparr>config := (config sample_world)
       (''pages'' \<mapsto> JObj [(''/'', JFun Constructible 0)],
        ''global'' \<mapsto> JObj [(''headers'', JArr [JFun Constructible 1, JFun Constructible 1]),
                             (''footers'', JArr [JFun Constructible 1]),
                             (''pages'', JArr [JStr ''*''])])\<rparr>"

text \<open>
  A page that holds an element with the id \<open>constructor\<close>, built by \<open>j\<close> and appended
  to the body. And a page that holds the element built from \<open>{tag: "span", properties:
  {id: "x"}, children: ["J{counter}", section]}\<close> while \<open>counter\<close> was 1, where
  \<open>section\<close> is a node of the store; since then the element has received a \<open>title\<close>,
  its text has been overwritten, and the nested node has received a \<open>class\<close>.
\<close>

definition proto_site :: world where
  "proto_site =
     (case createElement (sample_host 0) sample_world (JStr ''div'')
             (JObj [(''id'', JStr ''constructor'')]) [] of
        (w1, r) \<Rightarrow>
          (case node_appendChild (store w1) 2 6 of Inl e \<Rightarrow> w1 | Inr d \<Rightarrow> w1\<lparr>store := d\<rparr>))"

definition counter_template :: template where
  "counter_template =
     \<lparr>tag = JStr ''span'', props = JObj [(''id'', JStr ''x'')],
      children = [JStr ''J{counter}'', JNode 3]\<rparr>"

definition edit_text :: "dom \<Rightarrow> ref \<Rightarrow> string \<Rightarrow> dom" where
  "edit_text d r t = d\<lparr>nodes := (nodes d)[r := TextNode t]\<rparr>"

definition counter_site :: world where
  "counter_site =
     (case createElement (sample_host 1) sample_world (tag counter_template)
             (props counter_template) (children counter_template) of
        (w1, r) \<Rightarrow>
          (case node_appendChild (store w1) 2 6 of
             Inl e \<Rightarrow> w1
           | Inr d \<Rightarrow>
               w1\<lparr>store := edit_text
                    (set_attrs (set_attrs d 6 [(''id'', ''x''), (''title'', ''edited'')]) 3
                       [(''class'', ''seen'')]) 7 ''gone''\<rparr>))"

text \<open>
  A page built from \<open>{tag: "span", properties: {id: "y"}, children: ["J{counter}",
  header]}\<close>, where \<open>header\<close> is a node of the store. The element was appended to the body;
  since then \<open>header\<close> has been moved to the body and the element into \<open>header\<close>.
\<close>

definition nested_template :: template where
  "nested_template =
     \<lparr>tag = JStr ''span'', props = JObj [(''id'', JStr ''y'')],
      children = [JStr ''J{counter}'', JNode 4]\<rparr>"

definition nested_site :: world where
  "nested_site =
     (case createElement (sample_host 1) sample_world (tag nested_template)
             (props nested_template) (children nested_template) of
        (w1, r) \<Rightarrow>
          (case node_appendChild (store w1) 2 6 of
             Inl e \<Rightarrow> w1
           | Inr d1 \<Rightarrow>
               (case node_appendChild d1 2 4 of
                  Inl e \<Rightarrow> w1
                | Inr d2 \<Rightarrow>
                    (case node_appendChild d2 4 6 of
                       Inl e \<Rightarrow> w1
                     | Inr d3 \<Rightarrow> w1\<lparr>store := d3\<rparr>))))"

section \<open>Properties\<close>

text \<open>
  C9. The current route is \<open>/\<close> when the navigation fragment is absent or empty, it is
  \<open>/\<close> followed by the fragment for every non-empty fragment, and it is never the
  empty string, whatever the location holds.
\<close>

theorem getCurrentRoute_fragment:
  "getCurrentRoute (h\<lparr>location_hash := hash_of_fragment None\<rparr>) = ''/''
   \<and> getCurrentRoute (h\<lparr>location_hash := hash_of_fragment (Some [])\<rparr>) = ''/''
   \<and> getCurrentRoute (h\<lparr>location_hash := hash_of_fragment (Some (c # x))\<rparr>) = ''/'' @ c # x
   \<and> getCurrentRoute h \<noteq> []"
  by (simp add: getCurrentRoute_def hash_of_fragment_def Let_def)

subsection \<open>The node store\<close>

lemma node_of_alloc:
  "node_of (fst (alloc d n)) r = (if r = length (nodes d) then Some n else node_of d r)"
  by (auto simp: node_of_def alloc_def nth_append)

lemma alloc_simps [simp]:
  "snd (alloc d n) = length (nodes d)"
  "length (nodes (fst (alloc d n))) = Suc (length (nodes d))"
  "documentElement (fst (alloc d n)) = documentElement d"
  by (simp_all add: alloc_def)

lemma alloc_pair: "alloc d n = (fst (alloc d n), length (nodes d))"
  by (simp add: alloc_def)

lemma node_of_set_children:
  "node_of (set_children d r ks) q =
     (if q = r then map_option (with_children ks) (node_of d r) else node_of d q)"
  by (auto simp: node_of_def set_children_def)

lemma node_of_set_attrs:
  "node_of (set_attrs d r as) q =
     (if q = r then map_option (with_attrs as) (node_of d r) else node_of d q)"
  by (auto simp: node_of_def set_attrs_def)

lemma node_of_detach:
  "node_of (detach d c) q =
     map_option (\<lambda>n. with_children (removeAll c (child_nodes n)) n) (node_of d q)"
  by (auto simp: node_of_def detach_def)

lemma length_simps [simp]:
  "length (nodes (set_children d r ks)) = length (nodes d)"
  "length (nodes (set_attrs d r as)) = length (nodes d)"
  "length (nodes (detach d c)) = length (nodes d)"
  "documentElement (set_children d r ks) = documentElement d"
  "documentElement (set_attrs d r as) = documentElement d"
  "documentElement (detach d c) = documentElement d"
  by (simp_all add: set_children_def set_attrs_def detach_def)

lemma child_nodes_with [simp]:
  "child_nodes (with_attrs as n) = child_nodes n"
  "attrs (with_children ks n) = attrs n"
  "is_element (with_children ks n) = is_element n"
  "is_element (with_attrs as n) = is_element n"
  "is_tag name (with_children ks n) = is_tag name n"
  "is_tag name (with_attrs as n) = is_tag name n"
  by (cases n; simp)+

lemma child_nodes_with_children:
  "child_nodes (with_children ks n) = (if is_element n then ks else [])"
  by (cases n) simp_all

lemma attrs_with_attrs: "attrs (with_attrs as n) = (if is_element n then as else [])"
  by (cases n) simp_all

lemma child_refs_set_children:
  "child_refs (set_children d r ks) q =
     (if q = r then (if element_ref d r then ks else []) else child_refs d q)"
  by (auto simp: child_refs_def element_ref_def node_of_set_children child_nodes_with_children
      split: option.splits)

lemma child_refs_set_attrs [simp]: "child_refs (set_attrs d r as) q = child_refs d q"
  by (auto simp: child_refs_def node_of_set_attrs split: option.splits)

lemma child_refs_detach: "child_refs (detach d c) q = removeAll c (child_refs d q)"
  by (auto simp: child_refs_def node_of_detach child_nodes_with_children split: option.splits)
     (case_tac x2; simp)

lemma child_refs_alloc:
  "child_refs (fst (alloc d n)) q = (if q = length (nodes d) then child_nodes n else child_refs d q)"
  by (simp add: child_refs_def node_of_alloc)

lemma tag_ref_simps [simp]:
  "tag_ref (set_children d r ks) name q = tag_ref d name q"
  "tag_ref (set_attrs d r as) name q = tag_ref d name q"
  "tag_ref (detach d c) name q = tag_ref d name q"
  by (auto simp: tag_ref_def node_of_set_children node_of_set_attrs node_of_detach
      split: option.splits)

lemma element_ref_simps [simp]:
  "element_ref (set_children d r ks) q = element_ref d q"
  "element_ref (set_attrs d r as) q = element_ref d q"
  "element_ref (detach d c) q = element_ref d q"
  by (auto simp: element_ref_def node_of_set_children node_of_set_attrs node_of_detach
      split: option.splits)

lemma tag_ref_alloc:
  "tag_ref (fst (alloc d n)) name q = (if q = length (nodes d) then is_tag name n else tag_ref d name q)"
  by (simp add: tag_ref_def node_of_alloc)

lemma element_ref_alloc:
  "element_ref (fst (alloc d n)) q = (if q = length (nodes d) then is_element n else element_ref d q)"
  by (simp add: element_ref_def node_of_alloc)

lemma attrs_text [simp]: "\<not> is_element n \<Longrightarrow> attrs n = []"
  by (cases n) simp_all

lemma attrs_of_simps:
  "attrs_of (set_children d r ks) q = attrs_of d q"
  "attrs_of (detach d c) q = attrs_of d q"
  "attrs_of (set_attrs d r as) q = (if q = r \<and> element_ref d r then as else attrs_of d q)"
  "attrs_of (fst (alloc d n)) q = (if q = length (nodes d) then attrs n else attrs_of d q)"
  by (auto simp: attrs_of_def element_ref_def node_of_set_children node_of_set_attrs
      node_of_detach node_of_alloc attrs_with_attrs split: option.splits)

lemma tag_ref_element: "tag_ref d name r \<Longrightarrow> element_ref d r"
  by (auto simp: tag_ref_def element_ref_def split: option.splits elim: is_tag.elims)

lemma tag_ref_allocated: "tag_ref d name r \<Longrightarrow> r < length (nodes d)"
  by (auto simp: tag_ref_def node_of_def split: option.splits if_splits)

lemma element_ref_allocated: "element_ref d r \<Longrightarrow> r < length (nodes d)"
  by (auto simp: element_ref_def node_of_def split: option.splits if_splits)

text \<open>A node whose subtree is closed under children and does not hold x is no ancestor of x.\<close>

lemma not_ancestor_closed:
  assumes "a \<in> S" and "\<And>p. p \<in> S \<Longrightarrow> set (child_refs d p) \<subseteq> S" and "x \<notin> S"
  shows "\<not> inclusive_ancestor n d a x"
  using assms(3)
proof (induction n arbitrary: x)
  case 0
  with assms(1) show ?case by auto
next
  case (Suc n)
  have "a \<noteq> x" using assms(1) Suc.prems by auto
  moreover have "\<not> inclusive_ancestor n d a p" if "parent_of d x = Some p" for p
  proof -
    from that have "x \<in> set (child_refs d p)"
      by (auto simp: parent_of_def dest: find_Some_iff [THEN iffD1])
    with assms(2) [of p] Suc.prems have "p \<notin> S" by auto
    then show ?thesis by (rule Suc.IH)
  qed
  ultimately show ?case by (auto split: option.splits)
qed

lemma node_appendChild_Inr:
  "node_appendChild d p c = Inr d' \<Longrightarrow>
     d' = set_children (detach d c) p (removeAll c (child_refs d p) @ [c]) \<and> element_ref d p
     \<and> node_of d c \<noteq> None"
  by (auto simp: node_appendChild_def child_refs_detach split: if_splits)

lemma node_appendChild_fresh:
  assumes "node_of d c \<noteq> None" and "element_ref d p" and "c \<in> S" and "p \<notin> S"
    and "\<And>q. q \<in> S \<Longrightarrow> set (child_refs d q) \<subseteq> S"
  shows "node_appendChild d p c = Inr (set_children (detach d c) p (removeAll c (child_refs d p) @ [c]))"
  using assms not_ancestor_closed [of c S d p "length (nodes d)"]
  by (auto simp: node_appendChild_def child_refs_detach)

subsection \<open>Body component selection\<close>

text \<open>
  C7. For every route, the body component that \<open>renderApp\<close> goes on with is the page
  map's own entry for the route when there is one, and otherwise what the page map holds
  for \<open>/\<close> (\<open>undefined\<close> when it holds nothing there).
\<close>

theorem renderApp_body_selection:
  assumes "config_get w ''pages'' = JObj kvs"
  shows "select_component w route =
           Inr (case map_of kvs route of Some v \<Rightarrow> v
                | None \<Rightarrow> (case map_of kvs ''/'' of Some v \<Rightarrow> v | None \<Rightarrow> JUndefined))
         \<and> renderApp h w =
           render_with h w (getCurrentRoute h)
             (case map_of kvs (getCurrentRoute h) of Some v \<Rightarrow> v
              | None \<Rightarrow> (case map_of kvs ''/'' of Some v \<Rightarrow> v | None \<Rightarrow> JUndefined))"
  using assms by (simp add: select_component_def renderApp_def Let_def split: option.splits)

theorem renderApp_body_selection_witness:
  "config_get sample_site ''pages'' = JObj [(''/'', JFun Constructible 0)]
   \<and> select_component sample_site ''/about'' = Inr (JFun Constructible 0)
   \<and> select_component sample_site ''/'' = Inr (JFun Constructible 0)"
proof -
  have c: "config_get sample_site ''pages'' = JObj [(''/'', JFun Constructible 0)]"
    by (simp add: config_get_def sample_site_def sample_world_def)
  from renderApp_body_selection [OF c, of "''/about''" "sample_host 0"]
       renderApp_body_selection [OF c, of "''/''" "sample_host 0"] c
  show ?thesis by simp
qed

subsection \<open>Invalid body component\<close>

text \<open>
  C2, as the code has it. Whenever \<open>typeof\<close> of the selected body component is not
  \<open>function\<close>, \<open>renderApp\<close> logs the diagnostic and returns; the document, the
  registry, the configuration and the loaded styles are as before the call.
\<close>

theorem renderApp_invalid_component:
  assumes "select_component w (getCurrentRoute h) = Inr c" and "typeof c \<noteq> ''function''"
  shows "renderApp h w =
           (w\<lparr>console := console w @ [''Invalid component for route: '' @ getCurrentRoute h]\<rparr>,
            Inr ())"
  using assms by (simp add: renderApp_def render_with_def Let_def)

theorem renderApp_invalid_component_witness:
  "select_component sample_world (getCurrentRoute (sample_host 0)) = Inr JUndefined
   \<and> typeof JUndefined \<noteq> ''function''
   \<and> renderApp (sample_host 0) sample_world =
       (sample_world\<lparr>console := [''Invalid component for route: /'']\<rparr>, Inr ())"
proof -
  have s: "select_component sample_world (getCurrentRoute (sample_host 0)) = Inr JUndefined"
    by code_simp
  have t: "typeof JUndefined \<noteq> ''function''" by simp
  have r: "getCurrentRoute (sample_host 0) = ''/''" by code_simp
  have c: "console sample_world = []" by (simp add: sample_world_def)
  from renderApp_invalid_component [OF s t] s t show ?thesis by (simp add: r c)
qed

text \<open>
  C2 as stated also covers a function that cannot be constructed. An arrow function
  registered as the page passes the \<open>typeof\<close> test: the mount container is created and
  appended to the body, \<open>new\<close> then throws a TypeError, and nothing is logged.
\<close>

theorem renderApp_arrow_page_counterexample:
  "select_component arrow_site (getCurrentRoute (sample_host 0)) = Inr (JFun NotConstructible 0)
   \<and> snd (renderApp (sample_host 0) arrow_site) = Inl TypeError
   \<and> console (fst (renderApp (sample_host 0) arrow_site)) = console arrow_site
   \<and> document_tree (store arrow_site) =
       Tag ''html'' [] [Tag ''head'' [] [], Tag ''body'' [] []]
   \<and> document_tree (store (fst (renderApp (sample_host 0) arrow_site))) =
       Tag ''html'' []
         [Tag ''head'' [] [], Tag ''body'' [] [Tag ''div'' [(''id'', ''app'')] []]]"
  by code_simp

subsection \<open>Template registry\<close>

lemma registry_get_Missing: "registry_get reg k = Missing \<Longrightarrow> reg k = None"
  by (simp add: registry_get_def split: option.splits)

lemma register_template_keeps:
  assumes "register_template h reg tg ps cs = Inr reg'" and "reg k = Some t"
  shows "reg' k = Some t"
proof -
  have "reg' = reg \<or> (\<exists>k' d. registry_get reg k' = Missing \<and> reg' = reg(k' \<mapsto> d))"
    using assms(1)
    by (auto simp: register_template_def split: sum.splits if_splits lookup.splits)
  then show ?thesis
  proof
    assume "reg' = reg"
    with assms(2) show ?thesis by simp
  next
    assume "\<exists>k' d. registry_get reg k' = Missing \<and> reg' = reg(k' \<mapsto> d)"
    then obtain k' d where m: "registry_get reg k' = Missing" and r: "reg' = reg(k' \<mapsto> d)"
      by blast
    from m have "reg k' = None" by (rule registry_get_Missing)
    with assms(2) have "k \<noteq> k'" by auto
    with r assms(2) show ?thesis by simp
  qed
qed

lemma createElement_templates:
  "templates (fst (createElement h w tg ps cs)) = templates w \<or>
   register_template h (templates w) tg ps cs = Inr (templates (fst (createElement h w tg ps cs)))"
  by (cases tg) (auto simp: createElement_def split: fkind.splits sum.splits prod.splits)

lemma createElement_keeps:
  "templates w k = Some t \<Longrightarrow> templates (fst (createElement h w tg ps cs)) k = Some t"
  using createElement_templates [of h w tg ps cs] register_template_keeps by fastforce

lemma register_template_new:
  "\<lbrakk>truthy ps; get_prop ps ''id'' = Inr i; truthy i; to_key h i = Inr k;
    registry_get reg k = Missing\<rbrakk>
   \<Longrightarrow> register_template h reg tg ps cs =
         Inr (reg(k \<mapsto> \<lparr>tag = tg, props = ps, children = cs\<rparr>))"
  by (simp add: register_template_def)

text \<open>A falsy \<open>id\<close> (the empty string, \<open>0\<close>, \<open>null\<close>, none at all) registers nothing.\<close>

lemma register_template_falsy:
  "\<lbrakk>truthy ps; get_prop ps ''id'' = Inr i; \<not> truthy i\<rbrakk>
   \<Longrightarrow> register_template h reg tg ps cs = Inr reg"
  by (simp add: register_template_def)

text \<open>
  C1, as the code has it. A descriptor with a tag that is not a function and a truthy
  \<open>id\<close>, whose key the registry neither holds nor inherits, is registered by its build,
  and whatever is built afterwards, with the same identifier or another, the registry
  still returns this first descriptor.
\<close>

theorem registry_first_write_wins:
  assumes "typeof tg \<noteq> ''function''" and "truthy ps" and "get_prop ps ''id'' = Inr i"
    and "truthy i" and "to_key h i = Inr k" and "registry_get (templates w) k = Missing"
  shows "registry_get
           (templates (fst (createElement h' (fst (createElement h w tg ps cs)) tg' ps' cs'))) k
           = Own \<lparr>tag = tg, props = ps, children = cs\<rparr>"
proof -
  have "templates (fst (createElement h w tg ps cs)) k
          = Some \<lparr>tag = tg, props = ps, children = cs\<rparr>"
    using assms
    by (cases tg)
       (simp_all add: createElement_def register_template_new split: sum.splits prod.splits)
  then have "templates (fst (createElement h' (fst (createElement h w tg ps cs)) tg' ps' cs')) k
               = Some \<lparr>tag = tg, props = ps, children = cs\<rparr>"
    by (rule createElement_keeps)
  then show ?thesis by (simp add: registry_get_def)
qed

theorem registry_first_write_wins_witness:
  "typeof (JStr ''div'') \<noteq> ''function'' \<and> truthy (JObj [(''id'', JStr ''x'')])
   \<and> get_prop (JObj [(''id'', JStr ''x'')]) ''id'' = Inr (JStr ''x'') \<and> truthy (JStr ''x'')
   \<and> to_key (sample_host 0) (JStr ''x'') = Inr (KString ''x'')
   \<and> registry_get (templates sample_world) (KString ''x'') = Missing
   \<and> registry_get
       (templates (fst (createElement (sample_host 1)
          (fst (createElement (sample_host 0) sample_world (JStr ''div'')
                  (JObj [(''id'', JStr ''x'')]) [JStr ''a'']))
          (JStr ''p'') (JObj [(''id'', JStr ''x'')]) [JStr ''b'']))) (KString ''x'')
     = Own \<lparr>tag = JStr ''div'', props = JObj [(''id'', JStr ''x'')], children = [JStr ''a'']\<rparr>"
proof -
  have a: "typeof (JStr ''div'') \<noteq> ''function''" by simp
  have b: "truthy (JObj [(''id'', JStr ''x'')])" by simp
  have c: "get_prop (JObj [(''id'', JStr ''x'')]) ''id'' = Inr (JStr ''x'')" by simp
  have d: "truthy (JStr ''x'')" by simp
  have e: "to_key (sample_host 0) (JStr ''x'') = Inr (KString ''x'')" by simp
  have f: "registry_get (templates sample_world) (KString ''x'') = Missing" by code_simp
  from registry_first_write_wins [OF a b c d e f] a b c d e f show ?thesis by blast
qed

text \<open>
  C1 as stated speaks of every identifier. The empty string is an \<open>id\<close> the build
  accepts and never registers: after two builds with it the registry has nothing to
  return.
\<close>

theorem registry_empty_id_counterexample:
  "snd (createElement (sample_host 0) sample_world (JStr ''div'') (JObj [(''id'', JStr [])])
          [JStr ''a'']) = Inr (JNode 6)
   \<and> tree_of 2
         (store (fst (createElement (sample_host 0) sample_world (JStr ''div'')
                        (JObj [(''id'', JStr [])]) [JStr ''a'']))) 6
       = Tag ''div'' [(''id'', [])] [Text ''a'']
   \<and> registry_get
       (templates (fst (createElement (sample_host 0)
          (fst (createElement (sample_host 0) sample_world (JStr ''div'')
                  (JObj [(''id'', JStr [])]) [JStr ''a'']))
          (JStr ''p'') (JObj [(''id'', JStr [])]) [JStr ''b'']))) (KString [])
     = Missing"
  by code_simp

subsection \<open>Inline expressions\<close>

lemma has_string_Inr: "has_string h v \<Longrightarrow> \<exists>s. to_string h v = Inr s"
  by (simp add: has_string_def split: sum.splits)

lemma replacer_caught: "run h (''return '' @ expr) = Inl e \<Longrightarrow> replacer h expr = JStr ''undefined''"
  by (simp add: replacer_def)

lemma evalTemplate_returns:
  "(\<And>expr. has_string h (replacer h expr)) \<Longrightarrow> \<exists>t. evalTemplate h s = Inr t"
proof (induction h s rule: evalTemplate.induct)
  case (1 h)
  show ?case by simp
next
  case (2 h c cs)
  show ?case
  proof (cases "match_at (c # cs)")
    case None
    with 2(1) [OF None 2(3)] show ?thesis by auto
  next
    case (Some m)
    obtain expr after where m: "m = (expr, after)" by (cases m)
    from 2(3) [of expr] obtain r where r: "to_string h (replacer h expr) = Inr r"
      using has_string_Inr by blast
    from 2(2) [OF Some m [symmetric] r 2(3)] obtain t where "evalTemplate h after = Inr t"
      by blast
    with Some m r show ?thesis by simp
  qed
qed

text \<open>
  C3. An expression whose evaluation throws yields \<open>undefined\<close>, and the substitution
  returns whenever every value it substitutes has a string form (the lemmas above); the
  two examples of the claim hold. It is not total: the value of \<open>J{Symbol()}\<close> is
  returned from inside the \<open>try\<close> and converted to a string outside of it, and that
  TypeError leaves \<open>createElement\<close>.
\<close>

theorem evalTemplate_symbol_throws:
  "evalTemplate (sample_host 0) ''J{1+1}'' = Inr ''2''
   \<and> evalTemplate (sample_host 0) ''J{undefinedVar}'' = Inr ''undefined''
   \<and> run (sample_host 0) ''return Symbol()'' = Inr (JSymbol [])
   \<and> evalTemplate (sample_host 0) ''J{Symbol()}'' = Inl TypeError
   \<and> snd (createElement (sample_host 0) sample_world (JStr ''span'') JNull [JStr ''J{Symbol()}''])
       = Inl TypeError"
  by code_simp

subsection \<open>Partial re-render\<close>

lemma rcmp_absent_node:
  "to_string h idv = Inr s \<Longrightarrow> getElementById (store w) s = None
   \<Longrightarrow> rcmp jrec h w idv = Some (w, Inr JUndefined)"
  by (simp add: rcmp_def)

lemma rcmp_unregistered:
  "to_string h idv = Inr s \<Longrightarrow> to_key h idv = Inr k \<Longrightarrow> registry_get (templates w) k = Missing
   \<Longrightarrow> rcmp jrec h w idv = Some (w, Inr JUndefined)"
  by (simp add: rcmp_def split: option.splits)

text \<open>
  C5. With no live node of that id, or with a key the registry neither holds nor
  inherits, \<open>rcmp\<close> returns and changes nothing (the two lemmas above). The registry
  is read with a computed key, though, and an id such as \<open>constructor\<close> finds the
  property that \<open>Object.prototype\<close> defines: no build registers that id, an element
  with it is in the document, and \<open>rcmp\<close> throws a TypeError when it spreads the
  missing \<open>children\<close>.
\<close>

theorem rcmp_inherited_key_throws:
  "snd (createElement (sample_host 0) sample_world (JStr ''div'')
          (JObj [(''id'', JStr ''constructor'')]) []) = Inr (JNode 6)
   \<and> document_tree (store proto_site) =
       Tag ''html'' []
         [Tag ''head'' [] [], Tag ''body'' [] [Tag ''div'' [(''id'', ''constructor'')] []]]
   \<and> templates proto_site (KString ''constructor'') = None
   \<and> getElementById (store proto_site) ''constructor'' = Some 6
   \<and> map_option snd (j 2 (sample_host 0) proto_site [JStr ''rcmp'', JStr ''constructor''])
       = Some (Inl TypeError)"
  by code_simp

subsection \<open>Configuration\<close>

lemma then_do_Inr:
  "then_do r f = (w', Inr v) \<Longrightarrow> \<exists>w0 a. r = (w0, Inr a) \<and> f w0 a = (w', Inr v)"
  by (cases r) (auto simp: then_do_def split: sum.splits)

lemma then_do_config:
  assumes "\<And>w a. config (fst (f w a)) = config w"
  shows "config (fst (then_do r f)) = config (fst r)"
  using assms by (cases r) (auto simp: then_do_def split: sum.splits)

lemma addStyle_config: "config (fst (addStyle h w u)) = config w"
  by (simp add: addStyle_def split: sum.splits option.splits prod.splits)

lemma addStyles_config: "config (fst (addStyles h w us)) = config w"
proof (induction us arbitrary: w)
  case Nil
  then show ?case by simp
next
  case (Cons u us)
  have "config (fst (addStyles h w (u # us))) = config (fst (addStyle h w u))"
    by (simp add: then_do_config Cons.IH)
  then show ?case by (simp add: addStyle_config)
qed

lemma addInlineStyle_config: "config (fst (addInlineStyle h w css)) = config w"
  by (simp add: addInlineStyle_def Let_def split: sum.splits option.splits prod.splits)

lemma apply_theme_config: "config (fst (apply_theme h w)) = config w"
  by (simp add: apply_theme_def Let_def split: sum.splits option.splits)

lemma cfg_config: "config (fst (cfg h w ov)) = object_assign (config w) ov"
proof -
  have 4: "config (fst (then_do (if truthy (config_get w ''inlineStyle'')
              then addInlineStyle h w (config_get w ''inlineStyle'')
              else (w, Inr ())) (\<lambda>w u. (w, Inr JInstance)))) = config w" for w
    by (simp add: then_do_config addInlineStyle_config)
  have 3: "config (fst (then_do (case config_get w ''styles'' of JArr urls \<Rightarrow> addStyles h w urls
              | _ \<Rightarrow> (w, Inr ())) (\<lambda>w u.
            then_do (if truthy (config_get w ''inlineStyle'')
              then addInlineStyle h w (config_get w ''inlineStyle'')
              else (w, Inr ())) (\<lambda>w u. (w, Inr JInstance))))) = config w" for w
    by (simp add: then_do_config 4 addStyles_config split: jsval.splits)
  have 2: "config (fst (then_do (if truthy (config_get w ''style'')
              then addStyle h w (config_get w ''style'') else (w, Inr ())) (\<lambda>w u.
            then_do (case config_get w ''styles'' of JArr urls \<Rightarrow> addStyles h w urls
              | _ \<Rightarrow> (w, Inr ())) (\<lambda>w u.
            then_do (if truthy (config_get w ''inlineStyle'')
              then addInlineStyle h w (config_get w ''inlineStyle'')
              else (w, Inr ())) (\<lambda>w u. (w, Inr JInstance)))))) = config w" for w
    by (simp add: then_do_config 3 addStyle_config)
  show ?thesis
    unfolding cfg_def by (simp add: then_do_config 2 apply_theme_config)
qed

lemma fold_assign_other:
  "k \<notin> fst ` set es \<Longrightarrow> fold assign_entry es m k = m k"
  by (induction es arbitrary: m) (auto simp: assign_entry_def)

lemma fold_assign_entry:
  "distinct (map fst es) \<Longrightarrow> (k, v) \<in> set es \<Longrightarrow> fold assign_entry es m k = Some v"
proof (induction es arbitrary: m)
  case Nil
  then show ?case by simp
next
  case (Cons e es)
  show ?case
  proof (cases "(k, v) \<in> set es")
    case True
    with Cons show ?thesis by simp
  next
    case False
    with Cons.prems have e: "e = (k, v)" by auto
    with Cons.prems have "k \<notin> fst ` set es" by (simp add: image_iff)
    then have "fold assign_entry es (assign_entry e m) k = assign_entry e m k"
      by (rule fold_assign_other)
    moreover have "assign_entry e m k = Some v"
      using e by (simp add: assign_entry_def)
    ultimately show ?thesis by simp
  qed
qed

lemma alloc_leaf_child_refs:
  "child_nodes n = [] \<Longrightarrow> child_refs (fst (alloc d n)) q = child_refs d q"
proof -
  assume "child_nodes n = []"
  moreover have "child_refs d (length (nodes d)) = []" by (simp add: child_refs_def node_of_def)
  ultimately show ?thesis by (simp add: child_refs_alloc)
qed

lemma alloc_other_tag:
  "\<not> is_tag name n \<Longrightarrow> tag_ref (fst (alloc d n)) name q = tag_ref d name q"
proof -
  assume "\<not> is_tag name n"
  moreover have "\<not> tag_ref d name (length (nodes d))" by (simp add: tag_ref_def node_of_def)
  ultimately show ?thesis by (simp add: tag_ref_alloc)
qed

lemma document_head_Some:
  "document_head d = Some r \<Longrightarrow>
     r \<in> set (child_refs d (documentElement d)) \<and> tag_ref d ''head'' r"
  by (auto simp: document_head_def find_Some_iff)

lemma document_body_Some:
  "document_body d = Some r \<Longrightarrow>
     r \<in> set (child_refs d (documentElement d)) \<and> tag_ref d ''body'' r"
  by (auto simp: document_body_def find_Some_iff)

lemma document_head_found:
  "r \<in> set (child_refs d (documentElement d)) \<Longrightarrow> tag_ref d ''head'' r \<Longrightarrow>
     document_head d \<noteq> None"
  by (auto simp: document_head_def find_None_iff)

lemma document_head_alloc:
  "child_nodes n = [] \<Longrightarrow> \<not> is_tag ''head'' n \<Longrightarrow>
     document_head (fst (alloc d n)) = document_head d"
  by (simp add: document_head_def alloc_leaf_child_refs alloc_other_tag cong: find_cong)

lemma document_head_set_attrs [simp]: "document_head (set_attrs d r as) = document_head d"
  by (simp add: document_head_def cong: find_cong)

text \<open>Appending a node that was just created, with children of its own making at most.\<close>

lemma append_created:
  assumes h: "document_head d = Some hr" and c: "node_of d c \<noteq> None"
    and t: "\<not> tag_ref d ''head'' c"
    and k: "\<And>q. q \<in> insert c K \<Longrightarrow> set (child_refs d q) \<subseteq> insert c K" and n: "hr \<notin> K"
  shows "\<exists>d'. node_appendChild d hr c = Inr d' \<and> document_head d' \<noteq> None"
proof -
  from document_head_Some [OF h] have m: "hr \<in> set (child_refs d (documentElement d))"
    and th: "tag_ref d ''head'' hr" by auto
  from th t have ne: "hr \<noteq> c" by auto
  let ?d' = "set_children (detach d c) hr (removeAll c (child_refs d hr) @ [c])"
  have a: "node_appendChild d hr c = Inr ?d'"
    using c tag_ref_element [OF th] ne n k
    by (intro node_appendChild_fresh [where S = "insert c K"]) auto
  have "hr \<in> set (child_refs ?d' (documentElement ?d'))"
    using m ne tag_ref_element [OF th]
    by (auto simp: child_refs_set_children child_refs_detach)
  moreover have "tag_ref ?d' ''head'' hr" using th by simp
  ultimately have "document_head ?d' \<noteq> None" by (rule document_head_found)
  with a show ?thesis by blast
qed

lemma addStyle_ok:
  assumes "document_head (store w) \<noteq> None" and "has_string h u"
  shows "\<exists>w'. addStyle h w u = (w', Inr ()) \<and> config w' = config w
            \<and> document_head (store w') \<noteq> None"
proof (cases "u \<in> set (loadedStyles w)")
  case True
  with assms(1) show ?thesis by (simp add: addStyle_def)
next
  case False
  from assms(2) obtain s where s: "to_string h u = Inr s" using has_string_Inr by blast
  let ?n = "Element ''link'' [(''rel'', ''stylesheet'')] []"
  define l where "l = length (nodes (store w))"
  define d1 where "d1 = fst (alloc (store w) ?n)"
  define d1' where "d1' = set_attrs d1 l [(''rel'', ''stylesheet''), (''href'', s)]"
  have ap: "alloc (store w) ?n = (d1, l)" by (simp add: d1_def l_def alloc_def)
  from assms(1) obtain hr where hr: "document_head d1' = Some hr"
    by (auto simp: d1'_def d1_def document_head_alloc)
  then have hr1: "document_head d1 = Some hr" by (simp add: d1'_def)
  have "\<exists>d'. node_appendChild d1' hr l = Inr d' \<and> document_head d' \<noteq> None"
  proof (rule append_created [OF hr, where K = "{}"])
    show "node_of d1' l \<noteq> None"
      by (simp add: d1'_def d1_def l_def node_of_set_attrs node_of_alloc)
    show "\<not> tag_ref d1' ''head'' l" by (simp add: d1'_def d1_def l_def tag_ref_alloc)
    show "set (child_refs d1' q) \<subseteq> insert l {}" if "q \<in> insert l {}" for q
      using that by (simp add: d1'_def d1_def l_def child_refs_alloc)
    show "hr \<notin> {}" by simp
  qed
  then obtain d' where "node_appendChild d1' hr l = Inr d'" "document_head d' \<noteq> None"
    by blast
  with False s hr1 ap show ?thesis
    by (simp add: addStyle_def d1'_def)
qed

lemma addStyles_ok:
  assumes "document_head (store w) \<noteq> None" and "list_all (has_string h) us"
  shows "\<exists>w'. addStyles h w us = (w', Inr ()) \<and> config w' = config w
            \<and> document_head (store w') \<noteq> None"
  using assms
proof (induction us arbitrary: w)
  case Nil
  then show ?case by simp
next
  case (Cons u us)
  from Cons.prems obtain w1 where 1: "addStyle h w u = (w1, Inr ())" "config w1 = config w"
    "document_head (store w1) \<noteq> None" using addStyle_ok [of w h u] by auto
  from Cons.IH [OF 1(3)] Cons.prems obtain w2 where
    "addStyles h w1 us = (w2, Inr ())" "config w2 = config w1"
    "document_head (store w2) \<noteq> None" by auto
  with 1 show ?case by (simp add: then_do_def)
qed

lemma child_refs_unallocated: "length (nodes d) \<le> r \<Longrightarrow> child_refs d r = []"
  by (simp add: child_refs_def node_of_def)

lemma document_head_set_children:
  "r \<noteq> documentElement d \<Longrightarrow> document_head (set_children d r ks) = document_head d"
  by (simp add: document_head_def child_refs_set_children cong: find_cong)

lemma addInlineStyle_ok:
  assumes "document_head (store w) \<noteq> None" and "has_string h css"
  shows "\<exists>w'. addInlineStyle h w css = (w', Inr ()) \<and> config w' = config w"
proof -
  define d where "d = store w"
  from assms(1) obtain hr where hr: "document_head d = Some hr" by (auto simp: d_def)
  from assms(2) obtain s where s: "to_string h css = Inr s" using has_string_Inr by blast
  define t where "t = (if css = JNull then [] else s)"
  have t: "(case css of JNull \<Rightarrow> Inr [] | _ \<Rightarrow> to_string h css) = Inr t"
    using s by (cases css) (simp_all add: t_def)
  define st where "st = length (nodes d)"
  define d1 where "d1 = fst (alloc d (Element ''style'' [] []))"
  define da where "da = fst (alloc d1 (TextNode t))"
  define d2 where "d2 = (if t = [] then d1 else set_children da st [Suc st])"
  have ap1: "alloc d (Element ''style'' [] []) = (d1, st)"
    by (simp add: d1_def st_def alloc_def)
  have ap2: "alloc d1 (TextNode t) = (da, Suc st)"
    by (simp add: da_def d1_def st_def alloc_def)
  have h1: "document_head d1 = Some hr" using hr by (simp add: d1_def document_head_alloc)
  have ha: "document_head da = Some hr" using h1 by (simp add: da_def document_head_alloc)
  from document_head_Some [OF hr] have "child_refs d (documentElement d) \<noteq> []" by auto
  then have "documentElement d < length (nodes d)"
    by (auto simp: child_refs_def node_of_def split: if_splits)
  then have ne: "st \<noteq> documentElement da" by (simp add: st_def da_def d1_def)
  have h2: "document_head d2 = Some hr"
    using h1 ha ne by (simp add: d2_def document_head_set_children)
  from document_head_Some [OF hr] have "hr < length (nodes d)"
    using tag_ref_allocated by blast
  then have hn: "hr \<noteq> st" "hr \<noteq> Suc st" by (simp_all add: st_def)
  have l1: "length (nodes d1) = Suc st" by (simp add: d1_def st_def)
  have "\<exists>d'. node_appendChild d2 hr st = Inr d' \<and> document_head d' \<noteq> None"
  proof (rule append_created [OF h2, where K = "{Suc st}"])
    show "node_of d2 st \<noteq> None"
      by (simp add: d2_def da_def d1_def st_def node_of_set_children node_of_alloc)
    show "\<not> tag_ref d2 ''head'' st"
      by (simp add: d2_def da_def d1_def st_def tag_ref_alloc)
    show "set (child_refs d2 q) \<subseteq> insert st {Suc st}" if "q \<in> insert st {Suc st}" for q
      using that l1
      by (auto simp: d2_def da_def child_refs_set_children child_refs_alloc d1_def st_def
          child_refs_unallocated split: if_splits)
    show "hr \<notin> {Suc st}" using hn by simp
  qed
  then obtain d' where a: "node_appendChild d2 hr st = Inr d'" by blast
  show ?thesis
  proof (cases "list_ex (\<lambda>x. JStr (textContent (length (nodes d)) d x) = css)
                  (filter (tag_ref d ''style'')
                     (descendants (length (nodes d)) d (child_refs d hr)))")
    case True
    with hr show ?thesis by (simp add: addInlineStyle_def Let_def d_def [symmetric])
  next
    case False
    with hr t ap1 ap2 h2 a show ?thesis
      by (simp add: addInlineStyle_def Let_def d_def [symmetric] d2_def split: if_splits)
  qed
qed

lemma apply_theme_ok:
  assumes "document_head (store w) \<noteq> None" and "document_body (store w) \<noteq> None"
    and "valid_attribute_name h ''data-theme''" and "has_string h (theme_of w)"
  shows "\<exists>w'. apply_theme h w = (w', Inr ()) \<and> config w' = config w
            \<and> document_head (store w') \<noteq> None"
proof -
  from assms(2) obtain b where b: "document_body (store w) = Some b" by blast
  show ?thesis
  proof (cases "if truthy (config_get w ''ui'') then get_prop (config_get w ''ui'') ''theme''
                else Inr (config_get w ''ui'')")
    case (Inl e)
    then have False by (cases "config_get w ''ui''") (simp_all split: if_splits)
    then show ?thesis ..
  next
    case (Inr theme)
    then have t: "theme_of w = theme" by (simp add: theme_of_def Let_def)
    with assms(4) obtain s where s: "to_string h theme = Inr s" using has_string_Inr by blast
    show ?thesis
      using Inr b s assms(1,3)
      by (simp add: apply_theme_def Let_def setAttribute_def)
  qed
qed

lemma config_get_cong: "config w' = config w \<Longrightarrow> config_get w' k = config_get w k"
  by (simp add: config_get_def)

lemma cfg_returns:
  assumes "documented_config h (w\<lparr>config := object_assign (config w) ov\<rparr>)"
  shows "snd (cfg h w ov) = Inr JInstance"
proof -
  let ?w0 = "w\<lparr>config := object_assign (config w) ov\<rparr>"
  from assms have hd: "document_head (store ?w0) \<noteq> None"
    and bd: "document_body (store ?w0) \<noteq> None"
    and va: "valid_attribute_name h ''data-theme''"
    and th: "has_string h (theme_of ?w0)"
    and st: "has_string h (config_get ?w0 ''style'')"
    and ss: "case config_get ?w0 ''styles'' of JArr urls \<Rightarrow> list_all (has_string h) urls | _ \<Rightarrow> True"
    and il: "has_string h (config_get ?w0 ''inlineStyle'')"
    by (simp_all add: documented_config_def)
  from apply_theme_ok [OF hd bd va th] obtain w1 where
    1: "apply_theme h ?w0 = (w1, Inr ())" "config w1 = config ?w0"
       "document_head (store w1) \<noteq> None" by blast
  have g1: "config_get w1 k = config_get ?w0 k" for k
    using 1(2) by (rule config_get_cong)
  have "\<exists>w2. (if truthy (config_get w1 ''style'') then addStyle h w1 (config_get w1 ''style'')
               else (w1, Inr ())) = (w2, Inr ()) \<and> config w2 = config w1
             \<and> document_head (store w2) \<noteq> None"
    using addStyle_ok [OF 1(3), of h "config_get w1 ''style''"] st 1(3) by (simp add: g1)
  then obtain w2 where
    2: "(if truthy (config_get w1 ''style'') then addStyle h w1 (config_get w1 ''style'')
         else (w1, Inr ())) = (w2, Inr ())" "config w2 = config w1"
       "document_head (store w2) \<noteq> None" by blast
  have g2: "config_get w2 k = config_get ?w0 k" for k
    using 2(2) 1(2) by (simp add: config_get_def)
  have "\<exists>w3. (case config_get w2 ''styles'' of JArr urls \<Rightarrow> addStyles h w2 urls
               | _ \<Rightarrow> (w2, Inr ())) = (w3, Inr ()) \<and> config w3 = config w2
             \<and> document_head (store w3) \<noteq> None"
  proof (cases "config_get w2 ''styles''")
    case (JArr urls)
    with ss have "list_all (has_string h) urls" by (simp add: g2)
    from addStyles_ok [OF 2(3) this] JArr show ?thesis by simp
  qed (use 2(3) in simp_all)
  then obtain w3 where
    3: "(case config_get w2 ''styles'' of JArr urls \<Rightarrow> addStyles h w2 urls
         | _ \<Rightarrow> (w2, Inr ())) = (w3, Inr ())" "config w3 = config w2"
       "document_head (store w3) \<noteq> None" by blast
  have g3: "config_get w3 k = config_get ?w0 k" for k
    using 3(2) 2(2) 1(2) by (simp add: config_get_def)
  have "\<exists>w4. (if truthy (config_get w3 ''inlineStyle'')
               then addInlineStyle h w3 (config_get w3 ''inlineStyle'')
               else (w3, Inr ())) = (w4, Inr ())"
    using addInlineStyle_ok [OF 3(3), of h "config_get w3 ''inlineStyle''"] il by (auto simp: g3)
  then obtain w4 where
    4: "(if truthy (config_get w3 ''inlineStyle'')
         then addInlineStyle h w3 (config_get w3 ''inlineStyle'')
         else (w3, Inr ())) = (w4, Inr ())" by blast
  show ?thesis
    unfolding cfg_def by (simp add: then_do_def 1(1) 2(1) 3(1) 4)
qed

lemma cfg_value: "cfg h w ov = (w', Inr v) \<Longrightarrow> v = JInstance"
  unfolding cfg_def by (auto dest!: then_do_Inr)

text \<open>
  C8. For an overlay object, a configuration field the overlay does not mention keeps
  its value, a field it mentions takes the overlay's value, and the call returns the
  instance: always when it returns, and it does return when the merged configuration
  and the page are as documented.
\<close>

theorem cfg_shallow_overlay:
  assumes "entries overlay = Inr es" and "distinct (map fst es)"
  shows "(k \<notin> fst ` set es \<longrightarrow> config (fst (cfg h w overlay)) k = config w k)
       \<and> ((k, v) \<in> set es \<longrightarrow> config (fst (cfg h w overlay)) k = Some v)
       \<and> (documented_config h (w\<lparr>config := object_assign (config w) overlay\<rparr>) \<longrightarrow>
            snd (cfg h w overlay) = Inr JInstance)
       \<and> (snd (cfg h w overlay) = Inr r \<longrightarrow> r = JInstance)"
proof -
  have c: "config (fst (cfg h w overlay)) = fold assign_entry es (config w)"
    using assms(1) by (simp add: cfg_config object_assign_def)
  have "snd (cfg h w overlay) = Inr r \<Longrightarrow> r = JInstance"
    using cfg_value [of h w overlay "fst (cfg h w overlay)" r] by (cases "cfg h w overlay") simp
  with c assms(2) show ?thesis
    by (auto simp: fold_assign_other fold_assign_entry cfg_returns)
qed

theorem cfg_shallow_overlay_witness:
  "entries (JObj [(''title'', JStr ''Shop''), (''style'', JStr ''shop.css'')])
     = Inr [(''title'', JStr ''Shop''), (''style'', JStr ''shop.css'')]
   \<and> distinct (map fst [(''title'', JStr ''Shop''), (''style'', JStr ''shop.css'')])
   \<and> config (fst (cfg (sample_host 0) sample_world
          (JObj [(''title'', JStr ''Shop''), (''style'', JStr ''shop.css'')]))) ''ui''
       = config sample_world ''ui''
   \<and> config (fst (cfg (sample_host 0) sample_world
          (JObj [(''title'', JStr ''Shop''), (''style'', JStr ''shop.css'')]))) ''title''
       = Some (JStr ''Shop'')
   \<and> snd (cfg (sample_host 0) sample_world
          (JObj [(''title'', JStr ''Shop''), (''style'', JStr ''shop.css'')])) = Inr JInstance"
proof -
  let ?es = "[(''title'', JStr ''Shop''), (''style'', JStr ''shop.css'')]"
  have a: "entries (JObj ?es) = Inr ?es" by simp
  have b: "distinct (map fst ?es)" by simp
  have c: "''ui'' \<notin> fst ` set ?es" by simp
  have d: "(''title'', JStr ''Shop'') \<in> set ?es" by simp
  have e: "documented_config (sample_host 0)
             (sample_world\<lparr>config := object_assign (config sample_world) (JObj ?es)\<rparr>)"
    by code_simp
  from cfg_shallow_overlay [OF a b, of "''ui''" "sample_host 0" sample_world]
       cfg_shallow_overlay [OF a b, of "''title''" "sample_host 0" sample_world "JStr ''Shop''"]
       a b c d e
  show ?thesis by blast
qed

subsection \<open>The entry point\<close>

lemma tag_ref_alloc_old: "tag_ref d name r \<Longrightarrow> tag_ref (fst (alloc d n)) name r"
  using tag_ref_allocated [of d name r] by (auto simp: tag_ref_alloc)

lemma node_appendChild_tag:
  "node_appendChild d p c = Inr d' \<Longrightarrow> tag_ref d' name r = tag_ref d name r"
  by (auto dest!: node_appendChild_Inr)

text \<open>What creating text nodes and successful appends keep, the children helper keeps.\<close>

lemma append_text_inv:
  assumes "\<And>d t. Q d \<Longrightarrow> Q (fst (alloc d (TextNode t)))"
    and "\<And>d p c d'. Q d \<Longrightarrow> node_appendChild d p c = Inr d' \<Longrightarrow> Q d'"
  shows "Q d \<Longrightarrow> Q (fst (append_text d el t))"
proof -
  assume a: "Q d"
  define d1 where "d1 = fst (alloc d (TextNode t))"
  have ap: "alloc d (TextNode t) = (d1, length (nodes d))" by (simp add: d1_def alloc_def)
  have "Q d1" using a assms(1) by (simp add: d1_def)
  then show ?thesis
    using assms(2) by (auto simp: append_text_def ap split: sum.splits)
qed

lemma appendChild_inv:
  assumes "\<And>d t. Q d \<Longrightarrow> Q (fst (alloc d (TextNode t)))"
    and "\<And>d p c d'. Q d \<Longrightarrow> node_appendChild d p c = Inr d' \<Longrightarrow> Q d'"
  shows "Q d \<Longrightarrow> Q (fst (appendChild h d el v))"
    and "Q d \<Longrightarrow> Q (fst (appendChildren h d el vs))"
proof (induction h d el v and h d el vs rule: appendChild_appendChildren.induct)
  case (4 h d element c)
  then show ?case using assms(2) by (auto split: sum.splits)
next
  case (9 h d element c cs)
  show ?case
  proof (cases "appendChild h d element c")
    case (Pair d' e)
    with 9(1) [OF 9(3)] have t: "Q d'" by simp
    show ?thesis
    proof (cases e)
      case None
      with Pair 9(2) [OF Pair [symmetric] _ t] show ?thesis by auto
    next
      case (Some x)
      with Pair t show ?thesis by simp
    qed
  qed
qed (auto intro: append_text_inv [of Q, OF assms] split: sum.splits)

lemma appendChildren_tag:
  "tag_ref d name r \<Longrightarrow> tag_ref (fst (appendChildren h d el vs)) name r"
  by (rule appendChild_inv(2) [where Q = "\<lambda>d. tag_ref d name r"])
     (auto simp: tag_ref_alloc_old node_appendChild_tag)

lemma build_element_unfold:
  assumes "document_createElement h tg = Inr name"
  shows "build_element h d tg ps cs =
     (case (if truthy ps
            then (case entries ps of Inl e \<Rightarrow> Inl e | Inr es \<Rightarrow> set_properties h es [])
            else Inr []) of
        Inl e \<Rightarrow> (fst (alloc d (Element name [] [])), Inl e)
      | Inr as \<Rightarrow>
          (case appendChildren h (set_attrs (fst (alloc d (Element name [] []))) (length (nodes d)) as)
                  (length (nodes d)) cs of
             (d2, Some e) \<Rightarrow> (d2, Inl e)
           | (d2, None) \<Rightarrow> (d2, Inr (length (nodes d)))))"
  unfolding build_element_def by (subst alloc_pair) (simp add: assms)

lemma build_element_Inr:
  assumes "build_element h d tg ps cs = (d', Inr el)"
  shows "\<exists>name as. to_string h tg = Inr name \<and> valid_element_name h name
           \<and> (if truthy ps
               then (case entries ps of Inl e \<Rightarrow> Inl e | Inr es \<Rightarrow> set_properties h es [])
               else Inr []) = Inr as
           \<and> el = length (nodes d)
           \<and> appendChildren h
                 (set_attrs (fst (alloc d (Element (ascii_lower name) [] []))) el as) el cs
               = (d', None)"
proof -
  from assms obtain name where n: "to_string h tg = Inr name" and v: "valid_element_name h name"
    and c: "document_createElement h tg = Inr (ascii_lower name)"
    by (auto simp: build_element_def document_createElement_def split: sum.splits if_splits)
  obtain r where r: "(if truthy ps
               then (case entries ps of Inl e \<Rightarrow> Inl e | Inr es \<Rightarrow> set_properties h es [])
               else Inr []) = r" by blast
  show ?thesis
  proof (cases r)
    case (Inl e)
    with assms r show ?thesis by (simp add: build_element_unfold [OF c])
  next
    case (Inr as)
    obtain d2 e where a: "appendChildren h
        (set_attrs (fst (alloc d (Element (ascii_lower name) [] []))) (length (nodes d)) as)
        (length (nodes d)) cs = (d2, e)" by (meson surj_pair)
    with assms r Inr have "e = None" "d2 = d'" "el = length (nodes d)"
      by (cases e; simp add: build_element_unfold [OF c])+
    with a n v r Inr show ?thesis by auto
  qed
qed

lemma build_element_tag:
  assumes "build_element h d tg ps cs = (d', Inr el)"
  shows "\<exists>name. to_string h tg = Inr name \<and> el = length (nodes d)
           \<and> tag_ref d' (ascii_lower name) el"
proof -
  from build_element_Inr [OF assms] obtain name as where n: "to_string h tg = Inr name"
    and e: "el = length (nodes d)"
    and r: "appendChildren h
                 (set_attrs (fst (alloc d (Element (ascii_lower name) [] []))) el as) el cs
               = (d', None)" by blast
  have "tag_ref (set_attrs (fst (alloc d (Element (ascii_lower name) [] []))) el as)
          (ascii_lower name) el"
    by (simp add: e tag_ref_alloc)
  from appendChildren_tag [OF this, of h el cs] r
  have "tag_ref d' (ascii_lower name) el" by simp
  with n e show ?thesis by blast
qed

lemma createElement_string_tag:
  "createElement h w (JStr s) ps cs = (w', Inr v) \<Longrightarrow>
     \<exists>el. v = JNode el \<and> tag_ref (store w') (ascii_lower s) el"
  by (auto simp: createElement_def dest!: build_element_tag split: sum.splits prod.splits)

lemma rcmp_value: "rcmp jrec h w i = Some (w', Inr v) \<Longrightarrow> v = JUndefined"
  unfolding rcmp_def
  by (auto split: sum.splits option.splits lookup.splits jsval.splits if_splits)

text \<open>
  C10, as the code has it. A call of \<open>j\<close> whose first argument is the string \<open>cfg\<close>,
  \<open>render\<close> or \<open>rcmp\<close> is the call of \<open>cfg\<close>, \<open>renderApp\<close> or \<open>rcmp\<close>, and
  whenever \<open>j\<close>, given a string as its first argument, returns an element, that string
  is none of the three and the element bears it, in lower case, as its name.
\<close>

theorem j_control_tokens:
  "j (Suc n) h w (JStr ''cfg'' # a # rest) = Some (cfg h w a)
   \<and> j (Suc n) h w (JStr ''render'' # rest) =
       Some (then_do (renderApp h w) (\<lambda>w u. (w, Inr JUndefined)))
   \<and> j (Suc n) h w (JStr ''rcmp'' # a # rest) = rcmp (j n h) h w a
   \<and> (j m h w (JStr s # rest) = Some (w', Inr (JNode el)) \<longrightarrow>
        s \<notin> {''cfg'', ''render'', ''rcmp''} \<and> tag_ref (store w') (ascii_lower s) el)"
proof -
  have 4: "s \<notin> {''cfg'', ''render'', ''rcmp''} \<and> tag_ref (store w') (ascii_lower s) el"
    if r: "j m h w (JStr s # rest) = Some (w', Inr (JNode el))"
  proof (cases m)
    case 0
    with r show ?thesis by simp
  next
    case (Suc k)
    show ?thesis
    proof (cases "s \<in> {''cfg'', ''render'', ''rcmp''}")
      case True
      then consider "s = ''cfg''" | "s = ''render''" | "s = ''rcmp''" by blast
      then have False
      proof cases
        case 1
        with r Suc have "cfg h w (arg (JStr s # rest) 1) = (w', Inr (JNode el))"
          by (simp add: arg_def)
        then show False by (auto dest: cfg_value)
      next
        case 2
        with r Suc have "then_do (renderApp h w) (\<lambda>w u. (w, Inr JUndefined)) = (w', Inr (JNode el))"
          by (simp add: arg_def)
        then show False by (auto dest!: then_do_Inr)
      next
        case 3
        with r Suc have "rcmp (j k h) h w (arg (JStr s # rest) 1) = Some (w', Inr (JNode el))"
          by (simp add: arg_def)
        then show False by (auto dest: rcmp_value)
      qed
      then show ?thesis ..
    next
      case False
      with r Suc have
        "createElement h w (JStr s) (arg (JStr s # rest) 1) (drop 2 (JStr s # rest))
           = (w', Inr (JNode el))"
        by (auto simp: arg_def)
      from createElement_string_tag [OF this] False show ?thesis by simp
    qed
  qed
  show ?thesis using 4 by (simp add: arg_def)
qed

theorem j_control_tokens_witness:
  "j 1 (sample_host 0) sample_world [JStr ''div'']
     = Some (fst (createElement (sample_host 0) sample_world (JStr ''div'') JUndefined []),
             Inr (JNode 6))
   \<and> ''div'' \<notin> {''cfg'', ''render'', ''rcmp''}
   \<and> tag_ref (store (fst (createElement (sample_host 0) sample_world (JStr ''div'') JUndefined [])))
         (ascii_lower ''div'') 6
   \<and> j 1 (sample_host 0) sample_world [JStr ''cfg'', JObj []]
       = Some (cfg (sample_host 0) sample_world (JObj []))
   \<and> snd (cfg (sample_host 0) sample_world (JObj [])) = Inr JInstance"
proof -
  have s: "snd (createElement (sample_host 0) sample_world (JStr ''div'') JUndefined [])
             = Inr (JNode 6)" by code_simp
  have a: "j 1 (sample_host 0) sample_world [JStr ''div'']
     = Some (fst (createElement (sample_host 0) sample_world (JStr ''div'') JUndefined []),
             Inr (JNode 6))"
    using s by (cases "createElement (sample_host 0) sample_world (JStr ''div'') JUndefined []")
               (simp add: arg_def)
  have b: "snd (cfg (sample_host 0) sample_world (JObj [])) = Inr JInstance" by code_simp
  note t = j_control_tokens [of 0 "sample_host 0" sample_world "JObj []" "[]" 1 "''div''"
         "fst (createElement (sample_host 0) sample_world (JStr ''div'') JUndefined [])" 6]
  from t have c: "j (Suc 0) (sample_host 0) sample_world [JStr ''cfg'', JObj []]
                    = Some (cfg (sample_host 0) sample_world (JObj []))"
    by (rule conjunct1)
  from t a have d: "''div'' \<notin> {''cfg'', ''render'', ''rcmp''} \<and>
      tag_ref (store (fst (createElement (sample_host 0) sample_world (JStr ''div'') JUndefined [])))
         (ascii_lower ''div'') 6" by blast
  from a b c d show ?thesis by (simp del: j.simps)
qed

text \<open>
  C10 as stated says that no element with one of the three names can be created through
  \<open>j\<close>. The switch compares with strict equality: the string \<open>CFG\<close> and the array
  \<open>["rcmp"]\<close> take the default branch, and the HTML document creates the elements
  \<open>cfg\<close> and \<open>rcmp\<close> for them.
\<close>

theorem j_case_folded_counterexample:
  "map_option snd (j 1 (sample_host 0) sample_world [JStr ''CFG'']) = Some (Inr (JNode 6))
   \<and> map_option (\<lambda>r. node_of (store (fst r)) 6) (j 1 (sample_host 0) sample_world [JStr ''CFG''])
       = Some (Some (Element ''cfg'' [] []))
   \<and> map_option snd (j 1 (sample_host 0) sample_world [JArr [JStr ''rcmp'']])
       = Some (Inr (JNode 6))
   \<and> map_option (\<lambda>r. node_of (store (fst r)) 6)
         (j 1 (sample_host 0) sample_world [JArr [JStr ''rcmp'']])
       = Some (Some (Element ''rcmp'' [] []))"
  by code_simp

subsection \<open>Re-rendering a registered element\<close>

lemma find_id_node:
  "find_id n d i x = Some r \<Longrightarrow>
     \<exists>t as cs. node_of d r = Some (Element t as cs) \<and> map_of as ''id'' = Some i"
  "find_id_list n d i xs = Some r \<Longrightarrow>
     \<exists>t as cs. node_of d r = Some (Element t as cs) \<and> map_of as ''id'' = Some i"
proof (induction n d i x and n d i xs arbitrary: r and r rule: find_id_find_id_list.induct)
  case (1 d i r)
  then show ?case by simp
next
  case (2 n d i x)
  then show ?case by (auto split: option.splits node.splits if_splits)
next
  case (3 n d i)
  then show ?case by simp
next
  case (4 n d i c cs)
  then show ?case by (auto split: option.splits)
qed

lemma getElementById_node:
  "getElementById d s = Some r \<Longrightarrow>
     s \<noteq> [] \<and> (\<exists>t as cs. node_of d r = Some (Element t as cs) \<and> map_of as ''id'' = Some s)"
  by (auto simp: getElementById_def dest: find_id_node(1) split: if_splits)

lemma node_of_allocated: "node_of d r = Some n \<Longrightarrow> r < length (nodes d)"
  by (auto simp: node_of_def split: if_splits)

lemma register_template_own:
  "\<lbrakk>truthy ps; get_prop ps ''id'' = Inr i; to_key h i = Inr k; reg k = Some t\<rbrakk>
   \<Longrightarrow> register_template h reg tg ps cs = Inr reg"
  by (simp add: register_template_def registry_get_def)

lemma createElement_built:
  "\<lbrakk>typeof tg \<noteq> ''function''; register_template h (templates w) tg ps cs = Inr reg;
    build_element h (store w) tg ps cs = (d, Inr el)\<rbrakk>
   \<Longrightarrow> createElement h w tg ps cs = (w\<lparr>templates := reg, store := d\<rparr>, Inr (JNode el))"
  by (cases tg) (simp_all add: createElement_def)

lemma attrs_of_allocated: "attrs_of d r \<noteq> [] \<Longrightarrow> r < length (nodes d)"
  by (auto simp: attrs_of_def node_of_def split: option.splits if_splits)

lemma node_appendChild_attrs:
  "node_appendChild d p c = Inr d' \<Longrightarrow> attrs_of d' r = attrs_of d r"
  by (auto dest!: node_appendChild_Inr simp: attrs_of_simps)

lemma appendChildren_attrs:
  assumes "r < length (nodes d)" and "attrs_of d r = as"
  shows "attrs_of (fst (appendChildren h d el vs)) r = as"
proof -
  have "r < length (nodes (fst (appendChildren h d el vs)))
          \<and> attrs_of (fst (appendChildren h d el vs)) r = as"
    by (rule appendChild_inv(2) [where Q = "\<lambda>d. r < length (nodes d) \<and> attrs_of d r = as"])
       (use assms in \<open>auto simp: attrs_of_simps node_appendChild_attrs dest: node_appendChild_Inr\<close>)
  then show ?thesis by simp
qed

lemma child_refs_element:
  assumes "x \<in> set (child_refs d p)"
  shows "element_ref d p"
proof (cases "node_of d p")
  case None
  then show ?thesis using assms by (simp add: child_refs_def)
next
  case (Some n)
  then show ?thesis using assms by (cases n) (auto simp: child_refs_def element_ref_def)
qed

lemma single_text_child:
  assumes "appendChildren h d el [JStr t] = (d', None)" and "child_refs d el = []"
  shows "\<exists>t'. evalTemplate h t = Inr t' \<and> child_refs d' el = [length (nodes d)]
           \<and> node_of d' (length (nodes d)) = Some (TextNode t')"
proof -
  from assms(1) obtain t' where t: "evalTemplate h t = Inr t'"
    and a: "append_text d el t' = (d', None)"
    by (auto split: sum.splits prod.splits option.splits)
  define d1 where "d1 = fst (alloc d (TextNode t'))"
  have ap: "alloc d (TextNode t') = (d1, length (nodes d))" by (simp add: d1_def alloc_def)
  from a ap have n: "node_appendChild d1 el (length (nodes d)) = Inr d'"
    by (auto simp: append_text_def split: sum.splits)
  from node_appendChild_Inr [OF n] have
    d': "d' = set_children (detach d1 (length (nodes d))) el
                (removeAll (length (nodes d)) (child_refs d1 el) @ [length (nodes d)])"
    and e: "element_ref d1 el" by auto
  from e have ne: "el \<noteq> length (nodes d)" by (auto simp: d1_def element_ref_alloc)
  then have c1: "child_refs d1 el = []" using assms(2) by (simp add: d1_def child_refs_alloc)
  have "child_refs d' el = [length (nodes d)]"
    using e c1 by (simp add: d' child_refs_set_children)
  moreover have "node_of d' (length (nodes d)) = Some (TextNode t')"
    using ne by (simp add: d' node_of_set_children node_of_detach d1_def node_of_alloc)
  ultimately show ?thesis using t by blast
qed


lemma append_text_inv_at:
  assumes "\<And>d t. Q d \<Longrightarrow> Q (fst (alloc d (TextNode t)))"
    and "\<And>d c d'. Q d \<Longrightarrow> node_appendChild d el c = Inr d' \<Longrightarrow> Q d'"
  shows "Q d \<Longrightarrow> Q (fst (append_text d el t))"
proof -
  assume a: "Q d"
  define d1 where "d1 = fst (alloc d (TextNode t))"
  have ap: "alloc d (TextNode t) = (d1, length (nodes d))" by (simp add: d1_def alloc_def)
  have "Q d1" using a assms(1) by (simp add: d1_def)
  then show ?thesis
    using assms(2) by (auto simp: append_text_def ap split: sum.splits)
qed

lemma appendChild_inv_at:
  "\<lbrakk>\<And>d t. Q d \<Longrightarrow> Q (fst (alloc d (TextNode t)));
    \<And>d c d'. Q d \<Longrightarrow> node_appendChild d el c = Inr d' \<Longrightarrow> Q d'; Q d\<rbrakk>
   \<Longrightarrow> Q (fst (appendChild h d el v))"
  "\<lbrakk>\<And>d t. Q d \<Longrightarrow> Q (fst (alloc d (TextNode t)));
    \<And>d c d'. Q d \<Longrightarrow> node_appendChild d el c = Inr d' \<Longrightarrow> Q d'; Q d\<rbrakk>
   \<Longrightarrow> Q (fst (appendChildren h d el vs))"
proof (induction h d el v and h d el vs rule: appendChild_appendChildren.induct)
  case (4 h d element c)
  then show ?case by (auto split: sum.splits)
next
  case (9 h d element c cs)
  show ?case
  proof (cases "appendChild h d element c")
    case (Pair d' e)
    with 9(1) [OF 9(3) 9(4) 9(5)] have t: "Q d'" by simp
    show ?thesis
    proof (cases e)
      case None
      with Pair 9(2) [OF Pair [symmetric] _ 9(3) 9(4) t] show ?thesis by auto
    next
      case (Some x)
      with Pair t show ?thesis by simp
    qed
  qed
qed (auto intro: append_text_inv_at [of Q] split: sum.splits)

lemma inclusive_ancestor_refl: "inclusive_ancestor n d a a"
  by (cases n) simp_all

lemma node_appendChild_self: "node_appendChild d p c = Inr d' \<Longrightarrow> c \<noteq> p"
  by (auto simp: node_appendChild_def inclusive_ancestor_refl split: if_splits)

lemma child_refs_appended:
  assumes "node_appendChild d p c = Inr d'"
  shows "child_refs d' q =
           (if q = p then removeAll c (child_refs d p) @ [c] else removeAll c (child_refs d q))"
  using node_appendChild_Inr [OF assms]
  by (auto simp: child_refs_set_children child_refs_detach element_ref_simps)

lemma appendChildren_unattached:
  assumes "el < length (nodes d)" and "(\<forall>q. el \<notin> set (child_refs d q))"
  shows "(\<forall>q. el \<notin> set (child_refs (fst (appendChildren h d el vs)) q))"
proof -
  have "el < length (nodes (fst (appendChildren h d el vs)))
          \<and> (\<forall>q. el \<notin> set (child_refs (fst (appendChildren h d el vs)) q))"
  proof (rule appendChild_inv_at(2) [where Q = "\<lambda>d. el < length (nodes d) \<and> (\<forall>q. el \<notin> set (child_refs d q))"])
    fix d t assume "el < length (nodes d) \<and> (\<forall>q. el \<notin> set (child_refs d q))"
    then show "el < length (nodes (fst (alloc d (TextNode t))))
                 \<and> (\<forall>q. el \<notin> set (child_refs (fst (alloc d (TextNode t))) q))"
      by (auto simp: child_refs_alloc)
  next
    fix d c d' assume a: "el < length (nodes d) \<and> (\<forall>q. el \<notin> set (child_refs d q))"
      and n: "node_appendChild d el c = Inr d'"
    from node_appendChild_self [OF n] have "c \<noteq> el" .
    moreover from node_appendChild_Inr [OF n] have "length (nodes d') = length (nodes d)" by simp
    ultimately show "el < length (nodes d') \<and> (\<forall>q. el \<notin> set (child_refs d' q))"
      using a by (auto simp: child_refs_appended [OF n])
  qed (use assms in simp)
  then show ?thesis by simp
qed

lemma detach_unattached:
  assumes "\<forall>q. c \<notin> set (child_refs d q)"
  shows "detach d c = d"
proof -
  have "with_children (removeAll c (child_nodes n)) n = n" if "n \<in> set (nodes d)" for n
  proof -
    from that obtain q where q: "q < length (nodes d)" "nodes d ! q = n"
      by (auto simp: in_set_conv_nth)
    then have "child_refs d q = child_nodes n" by (simp add: child_refs_def node_of_def)
    with assms have "c \<notin> set (child_nodes n)" by metis
    then show ?thesis by (cases n) simp_all
  qed
  then have "map (\<lambda>n. with_children (removeAll c (child_nodes n)) n) (nodes d) = nodes d"
    by (simp add: map_idI)
  then show ?thesis by (simp add: detach_def)
qed


lemma well_formed_child:
  assumes "well_formed d" and "c \<in> set (child_refs d q)"
  shows "c < length (nodes d)"
proof (cases "node_of d q")
  case None
  with assms(2) show ?thesis by (simp add: child_refs_def)
next
  case (Some n)
  then have "n \<in> set (nodes d)" by (auto simp: node_of_def split: if_splits)
  with assms Some show ?thesis by (auto simp: well_formed_def child_refs_def)
qed

lemma parent_of_child:
  "parent_of d c = Some p \<Longrightarrow> p < length (nodes d) \<and> c \<in> set (child_refs d p)"
  by (auto simp: parent_of_def dest: find_Some_iff [THEN iffD1])

lemma node_replaceChild_swap:
  assumes "node_of d new \<noteq> None" and "old \<in> set (child_refs d p)"
    and "\<not> inclusive_ancestor (length (nodes d)) d new p" and "new \<noteq> old"
    and "\<forall>q. new \<notin> set (child_refs d q)"
  shows "node_replaceChild d (Some p) new old =
           Inr (set_children d p (map (\<lambda>c. if c = old then new else c) (child_refs d p)))"
  using assms child_refs_element [OF assms(2)]
  by (simp add: node_replaceChild_def detach_unattached)


lemma build_element_fresh:
  assumes wf: "well_formed d" and build: "build_element h d tg ps cs = (d', Inr el)"
  shows "\<exists>name as. to_string h tg = Inr name
           \<and> (if truthy ps
               then (case entries ps of Inl e \<Rightarrow> Inl e | Inr es \<Rightarrow> set_properties h es [])
               else Inr []) = Inr as
           \<and> el = length (nodes d) \<and> tag_ref d' (ascii_lower name) el \<and> attrs_of d' el = as
           \<and> (\<forall>q. el \<notin> set (child_refs d' q))
           \<and> (\<forall>t. cs = [JStr t] \<longrightarrow>
                 (\<exists>t'. evalTemplate h t = Inr t' \<and> child_refs d' el = [Suc el]
                    \<and> node_of d' (Suc el) = Some (TextNode t')))"
proof -
  from build_element_Inr [OF build] obtain name as where n: "to_string h tg = Inr name"
    and as: "(if truthy ps
               then (case entries ps of Inl e \<Rightarrow> Inl e | Inr es \<Rightarrow> set_properties h es [])
               else Inr []) = Inr as"
    and e: "el = length (nodes d)"
    and r: "appendChildren h
                 (set_attrs (fst (alloc d (Element (ascii_lower name) [] []))) el as) el cs
               = (d', None)" by blast
  define d0 where "d0 = set_attrs (fst (alloc d (Element (ascii_lower name) [] []))) el as"
  have d': "d' = fst (appendChildren h d0 el cs)" using r by (simp add: d0_def)
  have len: "length (nodes d0) = Suc el" by (simp add: d0_def e)
  have t0: "tag_ref d0 (ascii_lower name) el" by (simp add: d0_def e tag_ref_alloc)
  have a0: "attrs_of d0 el = as"
    by (simp add: d0_def e attrs_of_simps element_ref_alloc)
  have u0: "\<forall>q. el \<notin> set (child_refs d0 q)"
    using well_formed_child [OF wf] by (auto simp: d0_def e child_refs_alloc)
  have c0: "child_refs d0 el = []" by (simp add: d0_def e child_refs_alloc)
  have 1: "tag_ref d' (ascii_lower name) el" unfolding d' using t0 by (rule appendChildren_tag)
  have 2: "attrs_of d' el = as" unfolding d' using len a0 by (intro appendChildren_attrs) simp_all
  have 3: "\<forall>q. el \<notin> set (child_refs d' q)"
    unfolding d' using len u0 by (intro appendChildren_unattached) simp_all
  have 4: "\<exists>t'. evalTemplate h t = Inr t' \<and> child_refs d' el = [Suc el]
             \<and> node_of d' (Suc el) = Some (TextNode t')" if "cs = [JStr t]" for t
    using single_text_child [of h d0 el t d'] r that c0 len by (simp add: d0_def)
  from n as e 1 2 3 4 show ?thesis by blast
qed





subsection \<open>Full render\<close>

lemma then_do_inv:
  assumes "Q (fst r)" and "\<And>w a. Q w \<Longrightarrow> Q (fst (f w a))"
  shows "Q (fst (then_do r f))"
  using assms by (cases r; cases "snd r") (auto simp: then_do_def)

text \<open>The style steps touch new nodes only, and append.\<close>

lemma addStyle_old:
  assumes "config w = c \<and> N \<le> length (nodes (store w)) \<and> tag_ref (store w) t r
             \<and> attrs_of (store w) r = as"
  shows "config (fst (addStyle h w u)) = c \<and> N \<le> length (nodes (store (fst (addStyle h w u))))
           \<and> tag_ref (store (fst (addStyle h w u))) t r
           \<and> attrs_of (store (fst (addStyle h w u))) r = as"
proof -
  let ?n = "Element ''link'' [(''rel'', ''stylesheet'')] []"
  define l where "l = length (nodes (store w))"
  define d1 where "d1 = fst (alloc (store w) ?n)"
  have ap: "alloc (store w) ?n = (d1, l)" by (simp add: d1_def l_def alloc_def)
  from assms have rl: "r < l" by (auto simp: l_def dest: tag_ref_allocated)
  have 1: "N \<le> length (nodes d1)" "tag_ref d1 t r" "attrs_of d1 r = as"
    using assms rl by (simp_all add: d1_def l_def tag_ref_alloc attrs_of_simps)
  have 2: "tag_ref (set_attrs d1 l x) t r" "attrs_of (set_attrs d1 l x) r = as" for x
    using 1 rl by (simp_all add: attrs_of_simps)
  have 3: "N \<le> length (nodes d2) \<and> tag_ref d2 t r \<and> attrs_of d2 r = as"
    if "node_appendChild (set_attrs d1 l x) p l = Inr d2" for x p d2
    using node_appendChild_Inr [OF that] 1 2 [of x] by (simp add: attrs_of_simps)
  show ?thesis
    using assms 1 2 3
    by (auto simp: addStyle_def ap split: sum.splits option.splits)
qed

lemma addStyles_old:
  assumes "config w = c \<and> N \<le> length (nodes (store w)) \<and> tag_ref (store w) t r
             \<and> attrs_of (store w) r = as"
  shows "config (fst (addStyles h w us)) = c \<and> N \<le> length (nodes (store (fst (addStyles h w us))))
           \<and> tag_ref (store (fst (addStyles h w us))) t r
           \<and> attrs_of (store (fst (addStyles h w us))) r = as"
  using assms
proof (induction us arbitrary: w)
  case Nil
  then show ?case by simp
next
  case (Cons u us)
  show ?case
    unfolding addStyles.simps
    by (rule then_do_inv [where Q = "\<lambda>w. config w = c \<and> N \<le> length (nodes (store w))
          \<and> tag_ref (store w) t r \<and> attrs_of (store w) r = as"])
       (use Cons addStyle_old in blast)+
qed

lemma ensure_styles_old:
  assumes "config w = c \<and> N \<le> length (nodes (store w)) \<and> tag_ref (store w) t r
             \<and> attrs_of (store w) r = as"
  shows "config (fst (ensure_styles h w)) = c
           \<and> N \<le> length (nodes (store (fst (ensure_styles h w))))
           \<and> tag_ref (store (fst (ensure_styles h w))) t r
           \<and> attrs_of (store (fst (ensure_styles h w))) r = as"
proof -
  let ?Q = "\<lambda>w. config w = c \<and> N \<le> length (nodes (store w))
          \<and> tag_ref (store w) t r \<and> attrs_of (store w) r = as"
  have 3: "?Q (fst (if truthy (config_get w ''styles'')
                  then case config_get w ''styles'' of JArr urls \<Rightarrow> addStyles h w urls
                       | _ \<Rightarrow> (w, Inl TypeError)
                  else (w, Inr ())))" if "?Q w" for w
    using that addStyles_old [OF that] by (auto split: jsval.splits)
  have 2: "?Q (fst (then_do (if truthy (config_get w ''style'') \<and>
                                 config_get w ''style'' \<notin> set (loadedStyles w)
                              then addStyle h w (config_get w ''style'') else (w, Inr ()))
          (\<lambda>w u. if truthy (config_get w ''styles'')
                  then case config_get w ''styles'' of JArr urls \<Rightarrow> addStyles h w urls
                       | _ \<Rightarrow> (w, Inl TypeError)
                  else (w, Inr ()))))" if "?Q w" for w
    by (rule then_do_inv [where Q = ?Q]) (use that addStyle_old [OF that] 3 in auto)
  have 1: "?Q (fst (if JStr ''defaultstyles.css'' \<notin> set (loadedStyles w)
                      then addDefaultStyles h w else (w, Inr ())))"
    using assms addStyle_old [OF assms] by (simp add: addDefaultStyles_def)
  show ?thesis
    unfolding ensure_styles_def
    by (rule then_do_inv [where Q = ?Q]) (use 1 2 in auto)
qed

lemma createElement_plain:
  assumes "createElement h w (JStr s) (JObj kvs) [] = (w1, Inr v)"
  shows "config w1 = config w
       \<and> (\<exists>as. set_properties h kvs [] = Inr as \<and> v = JNode (length (nodes (store w)))
            \<and> store w1 = set_attrs (fst (alloc (store w) (Element (ascii_lower s) [] [])))
                           (length (nodes (store w))) as)"
proof -
  from assms obtain reg d el where
    b: "build_element h (store w) (JStr s) (JObj kvs) [] = (d, Inr el)"
    and w1: "w1 = w\<lparr>templates := reg, store := d\<rparr>" and v: "v = JNode el"
    by (auto simp: createElement_def split: sum.splits prod.splits)
  from build_element_Inr [OF b] w1 v show ?thesis by auto
qed

lemma id_attribute:
  "set_properties h [(''id'', JStr ''app'')] [] = Inr as \<Longrightarrow> as = [(''id'', ''app'')]"
  by (auto simp: set_property_def setAttribute_def ascii_lower_def lower_char_def
        split: sum.splits if_splits)

lemma class_attribute:
  "set_properties h [(''class'', JStr ''main-content'')] [] = Inr as
     \<Longrightarrow> as = [(''class'', ''main-content'')]"
  by (auto simp: set_property_def setAttribute_def ascii_lower_def lower_char_def
        split: sum.splits if_splits)


lemma ensure_root_ok:
  assumes "ensure_root h w = (w1, Inr root)"
  shows "config w1 = config w \<and> length (nodes (store w)) \<le> length (nodes (store w1))
       \<and> (\<exists>t as. tag_ref (store w1) t root \<and> attrs_of (store w1) root = as
             \<and> map_of as ''id'' = Some ''app'')"
proof (cases "getElementById (store w) ''app''")
  case (Some r)
  with assms have e: "w1 = w" "root = r" by (simp_all add: ensure_root_def)
  from getElementById_node [OF Some] obtain t as cs where
    "node_of (store w) r = Some (Element t as cs)" "map_of as ''id'' = Some ''app''" by blast
  then have "tag_ref (store w) t r \<and> attrs_of (store w) r = as \<and> map_of as ''id'' = Some ''app''"
    by (simp add: tag_ref_def attrs_of_def)
  with e show ?thesis by blast
next
  case None
  obtain wc rc where c: "createElement h w (JStr ''div'') (JObj [(''id'', JStr ''app'')]) []
                          = (wc, rc)" by (meson surj_pair)
  with None assms obtain v b d where rc: "rc = Inr v"
    and b: "document_body (store wc) = Some b" and v: "v = JNode root"
    and a: "node_appendChild (store wc) b root = Inr d" and w1: "w1 = wc\<lparr>store := d\<rparr>"
    by (auto simp: ensure_root_def split: sum.splits option.splits jsval.splits)
  from createElement_plain [OF c [unfolded rc]] v obtain as where
    cf: "config wc = config w" and as: "set_properties h [(''id'', JStr ''app'')] [] = Inr as"
    and r: "root = length (nodes (store w))"
    and st: "store wc = set_attrs (fst (alloc (store w) (Element (ascii_lower ''div'') [] [])))
                           (length (nodes (store w))) as" by auto
  from id_attribute [OF as] have as': "as = [(''id'', ''app'')]" .
  have 1: "tag_ref (store wc) (ascii_lower ''div'') root" by (simp add: st r tag_ref_alloc)
  have 2: "attrs_of (store wc) root = [(''id'', ''app'')]"
    by (simp add: st r as' attrs_of_simps element_ref_alloc)
  have 3: "length (nodes (store w)) \<le> length (nodes (store wc))" by (simp add: st)
  from node_appendChild_Inr [OF a] 1 2 3
  have "tag_ref d (ascii_lower ''div'') root \<and> attrs_of d root = [(''id'', ''app'')]
          \<and> length (nodes (store w)) \<le> length (nodes d)"
    by (simp add: attrs_of_simps)
  with cf w1 show ?thesis by auto
qed

lemma node_appendChild_keeps:
  assumes "node_appendChild d p c = Inr d'"
  shows "length (nodes d') = length (nodes d)" and "tag_ref d' t q = tag_ref d t q"
    and "attrs_of d' q = attrs_of d q"
  using node_appendChild_Inr [OF assms] by (simp_all add: attrs_of_simps)

text \<open>
  A loop of \<open>appendChild\<close> calls on one parent: every node of the loop leaves the place
  where it was and stands below the parent, at the place of its last call.
\<close>

lemma append_values_children:
  "append_values vs d P = (d', None) \<Longrightarrow>
     \<exists>cs. vs = map JNode cs \<and> P \<notin> set cs \<and> length (nodes d') = length (nodes d)
        \<and> (\<forall>t q. tag_ref d' t q = tag_ref d t q) \<and> (\<forall>q. attrs_of d' q = attrs_of d q)
        \<and> (\<forall>q. child_refs d' q =
              filter (\<lambda>c. c \<notin> set cs) (child_refs d q) @ (if q = P then remdups cs else []))"
proof (induction vs arbitrary: d)
  case Nil
  then show ?case by simp
next
  case (Cons v vs)
  from Cons.prems obtain c d1 where v: "v = JNode c"
    and a: "node_appendChild d P c = Inr d1" and r: "append_values vs d1 P = (d', None)"
    by (auto simp: append_value_def split: sum.splits jsval.splits)
  from Cons.IH [OF r] obtain cs where cs: "vs = map JNode cs" "P \<notin> set cs"
    "length (nodes d') = length (nodes d1)"
    "\<And>t q. tag_ref d' t q = tag_ref d1 t q" "\<And>q. attrs_of d' q = attrs_of d1 q"
    "\<And>q. child_refs d' q =
              filter (\<lambda>c. c \<notin> set cs) (child_refs d1 q) @ (if q = P then remdups cs else [])"
    by blast
  have "child_refs d' q = filter (\<lambda>x. x \<notin> set (c # cs)) (child_refs d q)
             @ (if q = P then remdups (c # cs) else [])" for q
    unfolding cs(6) [of q] child_refs_appended [OF a, of q]
    by (auto simp: removeAll_filter_not_eq intro: filter_cong)
  then have k: "\<forall>q. child_refs d' q = filter (\<lambda>x. x \<notin> set (c # cs)) (child_refs d q)
             @ (if q = P then remdups (c # cs) else [])" by blast
  from node_appendChild_self [OF a] cs(2) have "P \<notin> set (c # cs)" by auto
  moreover have "v # vs = map JNode (c # cs)" using v cs(1) by simp
  moreover have "length (nodes d') = length (nodes d)"
    using cs(3) node_appendChild_keeps(1) [OF a] by simp
  moreover have "\<forall>t q. tag_ref d' t q = tag_ref d t q"
    using cs(4) node_appendChild_keeps(2) [OF a] by simp
  moreover have "\<forall>q. attrs_of d' q = attrs_of d q"
    using cs(5) node_appendChild_keeps(3) [OF a] by simp
  ultimately show ?case using k by (intro exI [of _ "c # cs"] conjI) assumption+
qed

lemma append_components_values:
  "append_components h cl d P = (d', None) \<Longrightarrow>
     \<exists>vs. map (renderComponent h) cl = map Inr vs \<and> append_values vs d P = (d', None)"
proof (induction cl arbitrary: d)
  case Nil
  then show ?case by simp
next
  case (Cons c cl)
  from Cons.prems obtain v d1 where v: "renderComponent h c = Inr v"
    and a: "append_value d P v = Inr d1" and r: "append_components h cl d1 P = (d', None)"
    by (auto split: sum.splits)
  from Cons.IH [OF r] obtain vs where "map (renderComponent h) cl = map Inr vs"
    "append_values vs d1 P = (d', None)" by blast
  with v a show ?case by (intro exI [of _ "v # vs"]) simp
qed

lemma for_each_component_children:
  assumes "for_each_component h v d P = (d', None)"
  shows "\<exists>cl cs. v = JArr cl \<and> map (renderComponent h) cl = map (\<lambda>n. Inr (JNode n)) cs
        \<and> P \<notin> set cs \<and> length (nodes d') = length (nodes d)
        \<and> (\<forall>t q. tag_ref d' t q = tag_ref d t q) \<and> (\<forall>q. attrs_of d' q = attrs_of d q)
        \<and> (\<forall>q. child_refs d' q =
              filter (\<lambda>c. c \<notin> set cs) (child_refs d q) @ (if q = P then remdups cs else []))"
proof -
  from assms obtain cl where v: "v = JArr cl" and a: "append_components h cl d P = (d', None)"
    by (cases v) (auto simp: for_each_component_def)
  from append_components_values [OF a] obtain vs where
    m: "map (renderComponent h) cl = map Inr vs" and b: "append_values vs d P = (d', None)"
    by blast
  from append_values_children [OF b] obtain cs where cs: "vs = map JNode cs" "P \<notin> set cs"
    "length (nodes d') = length (nodes d)"
    "\<forall>t q. tag_ref d' t q = tag_ref d t q" "\<forall>q. attrs_of d' q = attrs_of d q"
    "\<forall>q. child_refs d' q =
              filter (\<lambda>c. c \<notin> set cs) (child_refs d q) @ (if q = P then remdups cs else [])"
    by blast
  from m cs(1) have "map (renderComponent h) cl = map (\<lambda>n. Inr (JNode n)) cs" by simp
  with v cs show ?thesis by blast
qed


lemma getGlobal_config:
  "config w' = config w \<Longrightarrow> getGlobalHeaders w' r = getGlobalHeaders w r"
  "config w' = config w \<Longrightarrow> getGlobalFooters w' r = getGlobalFooters w r"
proof -
  assume "config w' = config w"
  then have g: "config_get w' = config_get w" by (auto simp: config_get_def)
  show "getGlobalHeaders w' r = getGlobalHeaders w r"
    unfolding getGlobalHeaders_def shouldHaveGlobal_def g by (rule refl)
  show "getGlobalFooters w' r = getGlobalFooters w r"
    unfolding getGlobalFooters_def shouldHaveGlobal_def g by (rule refl)
qed

lemma getGlobal_filter:
  "getGlobalHeaders w r = Inr (JArr hl) \<Longrightarrow> getGlobalFooters w r = Inr (JArr fl) \<Longrightarrow>
     \<exists>b. shouldHaveGlobal w r = Inr b \<and>
         (if b then get_prop (config_get w ''global'') ''headers'' = Inr (JArr hl) \<and>
                    get_prop (config_get w ''global'') ''footers'' = Inr (JArr fl)
          else hl = [] \<and> fl = [])"
  by (auto simp: getGlobalHeaders_def getGlobalFooters_def split: sum.splits if_splits)

lemma fill_root_ok:
  assumes fr: "fill_root h w root route content = (w', Inr ())"
    and rl: "root < length (nodes (store w))"
  shows "\<exists>main hl fl hs fs body.
           main = length (nodes (store w))
         \<and> getGlobalHeaders w route = Inr (JArr hl) \<and> getGlobalFooters w route = Inr (JArr fl)
         \<and> map (renderComponent h) hl = map (\<lambda>n. Inr (JNode n)) hs
         \<and> map (renderComponent h) fl = map (\<lambda>n. Inr (JNode n)) fs
         \<and> content_values content = map JNode body
         \<and> (\<forall>t. tag_ref (store w') t root = tag_ref (store w) t root)
         \<and> attrs_of (store w') root = attrs_of (store w) root
         \<and> tag_ref (store w') ''div'' main
         \<and> attrs_of (store w') main = [(''class'', ''main-content'')]
         \<and> (main \<notin> set (hs @ body @ fs) \<longrightarrow>
               child_refs (store w') root =
                 filter (\<lambda>c. c \<notin> set body \<and> c \<notin> set fs) (remdups hs) @ [main] @ remdups fs
             \<and> child_refs (store w') main = filter (\<lambda>c. c \<notin> set fs) (remdups body))"
proof -
  define w0 where "w0 = w\<lparr>store := set_children (store w) root []\<rparr>"
  define main where "main = length (nodes (store w))"
  obtain w1 r1 where c: "createElement h w0 (JStr ''div'')
      (JObj [(''class'', JStr ''main-content'')]) [] = (w1, r1)" by (meson surj_pair)
  from fr c obtain mainv where r1: "r1 = Inr mainv"
    by (cases r1) (auto simp: fill_root_def w0_def)
  from createElement_plain [OF c [unfolded r1]] obtain as where
    cf: "config w1 = config w" and as: "set_properties h [(''class'', JStr ''main-content'')] [] = Inr as"
    and mv: "mainv = JNode main"
    and st: "store w1 = set_attrs (fst (alloc (set_children (store w) root [])
                 (Element (ascii_lower ''div'') [] []))) main as"
    by (auto simp: w0_def main_def)
  from class_attribute [OF as] have as': "as = [(''class'', ''main-content'')]" .
  have lw: "ascii_lower ''div'' = ''div''" by (simp add: ascii_lower_def lower_char_def)
  define d1 where "d1 = store w1"
  from rl have ne: "root \<noteq> main" by (simp add: main_def)
  have d1: "child_refs d1 root = []" "child_refs d1 main = []"
    "\<And>t. tag_ref d1 t root = tag_ref (store w) t root" "attrs_of d1 root = attrs_of (store w) root"
    "tag_ref d1 ''div'' main" "attrs_of d1 main = [(''class'', ''main-content'')]"
    using ne rl
    by (simp_all add: d1_def st main_def as' lw child_refs_alloc child_refs_set_children
          tag_ref_alloc attrs_of_simps element_ref_alloc)
  from fr c r1 mv obtain headers d2 d3 d4 footers d5 where
    gh: "getGlobalHeaders w1 route = Inr headers"
    and f1: "for_each_component h headers d1 root = (d2, None)"
    and av: "append_values (content_values content) d2 main = (d3, None)"
    and am: "node_appendChild d3 root main = Inr d4"
    and gf: "getGlobalFooters w1 route = Inr footers"
    and f2: "for_each_component h footers d4 root = (d5, None)"
    and w': "w' = w1\<lparr>store := d5\<rparr>"
    by (auto simp: fill_root_def w0_def d1_def split: sum.splits prod.splits option.splits)
  from for_each_component_children [OF f1] obtain hl hs where hl: "headers = JArr hl"
    and mh: "map (renderComponent h) hl = map (\<lambda>n. Inr (JNode n)) hs"
    and t2: "\<And>t q. tag_ref d2 t q = tag_ref d1 t q" and a2: "\<And>q. attrs_of d2 q = attrs_of d1 q"
    and c2: "\<And>q. child_refs d2 q =
              filter (\<lambda>c. c \<notin> set hs) (child_refs d1 q) @ (if q = root then remdups hs else [])"
    by blast
  from append_values_children [OF av] obtain body where bd: "content_values content = map JNode body"
    and t3: "\<And>t q. tag_ref d3 t q = tag_ref d2 t q" and a3: "\<And>q. attrs_of d3 q = attrs_of d2 q"
    and c3: "\<And>q. child_refs d3 q =
              filter (\<lambda>c. c \<notin> set body) (child_refs d2 q) @ (if q = main then remdups body else [])"
    by blast
  from for_each_component_children [OF f2] obtain fl fs where fl: "footers = JArr fl"
    and mf: "map (renderComponent h) fl = map (\<lambda>n. Inr (JNode n)) fs"
    and t5: "\<And>t q. tag_ref d5 t q = tag_ref d4 t q" and a5: "\<And>q. attrs_of d5 q = attrs_of d4 q"
    and c5: "\<And>q. child_refs d5 q =
              filter (\<lambda>c. c \<notin> set fs) (child_refs d4 q) @ (if q = root then remdups fs else [])"
    by blast
  note t4 = node_appendChild_keeps(2) [OF am] and a4 = node_appendChild_keeps(3) [OF am]
    and c4 = child_refs_appended [OF am]
  have 1: "getGlobalHeaders w route = Inr (JArr hl)" "getGlobalFooters w route = Inr (JArr fl)"
    using gh gf hl fl getGlobal_config [OF cf] by simp_all
  have 2: "\<forall>t. tag_ref (store w') t root = tag_ref (store w) t root"
    by (simp add: w' t5 t4 t3 t2 d1)
  have 3: "attrs_of (store w') root = attrs_of (store w) root"
    by (simp add: w' a5 a4 a3 a2 d1)
  have 4: "tag_ref (store w') ''div'' main" by (simp add: w' t5 t4 t3 t2 d1)
  have 5: "attrs_of (store w') main = [(''class'', ''main-content'')]"
    by (simp add: w' a5 a4 a3 a2 d1)
  have 6: "child_refs (store w') root =
             filter (\<lambda>c. c \<notin> set body \<and> c \<notin> set fs) (remdups hs) @ [main] @ remdups fs
         \<and> child_refs (store w') main = filter (\<lambda>c. c \<notin> set fs) (remdups body)"
    if "main \<notin> set (hs @ body @ fs)"
  proof -
    from that have m: "main \<notin> set hs" "main \<notin> set body" "main \<notin> set fs" by auto
    have r3: "child_refs d3 root = filter (\<lambda>c. c \<notin> set body) (remdups hs)"
      using ne by (simp add: c3 c2 d1)
    have m3: "child_refs d3 main = remdups body" using ne by (simp add: c3 c2 d1)
    have r4: "child_refs d4 root = filter (\<lambda>c. c \<notin> set body) (remdups hs) @ [main]"
      using m by (simp add: c4 r3)
    have m4: "child_refs d4 main = remdups body" using ne m by (simp add: c4 m3)
    have "child_refs d5 root =
            filter (\<lambda>c. c \<notin> set body \<and> c \<notin> set fs) (remdups hs) @ [main] @ remdups fs"
      using m by (simp add: c5 r4 conj_commute)
    moreover have "child_refs d5 main = filter (\<lambda>c. c \<notin> set fs) (remdups body)"
      using ne by (simp add: c5 m4)
    ultimately show ?thesis by (simp add: w')
  qed
  from 1 mh mf bd 2 3 4 5 6 show ?thesis
    unfolding main_def [symmetric] by (intro exI [of _ main] exI [of _ hl] exI [of _ fl]
      exI [of _ hs] exI [of _ fs] exI [of _ body]) simp
qed





end
